theory Spec2Isabelle
  imports Complex_Main "HOL-Library.Log_Nat"
begin

section \<open>Petrol pump management system: data model\<close>

text \<open>
  The model follows \<^verbatim>\<open>src/ppms.c\<close>. The program keeps its whole state in global
  variables; here they are the fields of one record that every operation takes and
  returns.

  The C type \<^verbatim>\<open>double\<close> is the type variable \<open>'d\<close>. The operations only use the
  symbols \<open>0\<close>, \<open>+\<close>, \<open>-\<close>, \<open>*\<close>, \<open>/\<close>, \<open><\<close> and \<open>\<le>\<close> on it and no law about them, so
  what is proved for every \<open>'d\<close> holds whatever the arithmetic of \<^verbatim>\<open>double\<close> does
  (rounding, infinities, NaN comparisons that are all false). Only the decimal
  literals of the macros (prices and opening stocks) ask for a type with numerals;
  the statements that start from \<^verbatim>\<open>initialize_system\<close> carry that sort, and the one
  statement that computes with the literals is at the type \<open>real\<close>. The statements
  about rounding are at the type \<open>binary64\<close>, defined below; its rounded addition is
  not associative, so it has no numerals, and the initial state at that type is
  written out with the literals converted.

  The integers of type \<^verbatim>\<open>int\<close> and \<^verbatim>\<open>time_t\<close> are \<open>int\<close>: the program compares and
  copies them. The one arithmetic on an \<^verbatim>\<open>int\<close> is the increment of
  \<^verbatim>\<open>transactions_count\<close>, written with its wrap-around to 32 bits (\<open>sint32\<close>).
  The unsigned counters \<^verbatim>\<open>tx_count\<close>,
  \<^verbatim>\<open>tx_capacity\<close> and \<^verbatim>\<open>txn_sequence\<close> are \<open>nat\<close> with the wrap-around at
  \<open>2 ^ 64\<close> written out. The fields \<^verbatim>\<open>pump_id\<close> and \<^verbatim>\<open>fuel_type\<close> of
  \<^verbatim>\<open>Transaction\<close> are \<open>tx_pump_id\<close> and \<open>tx_fuel_type\<close> here, since \<^verbatim>\<open>Pump\<close> has
  fields of the same names.
\<close>

datatype FuelType = FUEL_PETROL | FUEL_DIESEL | FUEL_CNG
datatype PumpStatus = PUMP_ACTIVE | PUMP_INACTIVE | PUMP_MAINT
datatype VehicleType = VEH_2W | VEH_4W | VEH_COMM
datatype PaymentMode = PAY_CASH | PAY_CARD | PAY_WALLET

record 'd Fuel =
  type :: FuelType
  price :: 'd
  opening_stock :: 'd
  current_stock :: 'd
  closing_stock :: 'd

record 'd Pump =
  pump_id :: int
  fuel_type :: FuelType
  status :: PumpStatus
  transactions_count :: int
  total_quantity :: 'd
  total_amount :: 'd

record 'd Transaction =
  txn_id :: string
  timestamp :: int
  tx_pump_id :: int
  tx_fuel_type :: FuelType
  vehicle_type :: VehicleType
  quantity :: 'd
  amount :: 'd
  payment_mode :: PaymentMode

text \<open>The fields of \<^verbatim>\<open>struct tm\<close> that the program reads.\<close>

record tm =
  tm_year :: int
  tm_mon :: int
  tm_mday :: int
  tm_hour :: int

text \<open>
  The global variables. \<open>transactions\<close> is the allocated block, one list element per
  slot, so its length is the number of slots the allocator granted. The arrays of fixed
  size are functions on their indices: the enum for the arrays indexed by an enum, the
  natural numbers for \<^verbatim>\<open>pumps\<close> (read and written below \<open>PUMP_COUNT\<close> only) and
  for the two hour arrays (an index outside \<open>0..23\<close> is the error \<open>HourOutOfBounds\<close>).
\<close>

record 'd state =
  fuels :: "FuelType \<Rightarrow> 'd Fuel"
  pumps :: "nat \<Rightarrow> 'd Pump"
  transactions :: "'d Transaction list"
  tx_capacity :: nat
  tx_count :: nat
  fuel_wise_quantity :: "FuelType \<Rightarrow> 'd"
  fuel_wise_amount :: "FuelType \<Rightarrow> 'd"
  payment_mode_amount :: "PaymentMode \<Rightarrow> 'd"
  hour_quantity :: "nat \<Rightarrow> 'd"
  hour_amount :: "nat \<Rightarrow> 'd"
  txn_sequence :: nat

text \<open>
  The ways a call does not return normally: the two \<^verbatim>\<open>exit(EXIT_FAILURE)\<close> paths, and
  an access outside an array, which C leaves undefined: outside the block of
  \<^verbatim>\<open>transactions\<close>, or outside the hour arrays.
\<close>

datatype error =
    InitialAllocationFailed
  | CapacityExpansionFailed
  | LedgerOutOfBounds
  | HourOutOfBounds

definition INITIAL_TX_CAPACITY :: nat where
  "INITIAL_TX_CAPACITY = 50"

definition PUMP_COUNT :: nat where
  "PUMP_COUNT = 6"

text \<open>\<^verbatim>\<open>size_t\<close> and \<^verbatim>\<open>unsigned long\<close> are 64 bits wide (LP64): arithmetic wraps.\<close>

definition size_t :: "nat \<Rightarrow> nat" where
  "size_t n = n mod 2 ^ 64"

text \<open>
  The value of a 32-bit \<^verbatim>\<open>int\<close> after an arithmetic result \<open>n\<close>: \<open>n\<close> itself when it
  is in range. Beyond \<^verbatim>\<open>INT_MAX\<close> the C standard leaves the result undefined; the
  model takes the two's complement value that the increment instruction leaves,
  \<open>- 2147483648\<close> after \<open>2147483647 + 1\<close>.
\<close>

definition sint32 :: "int \<Rightarrow> int" where
  "sint32 n = (n + 2 ^ 31) mod 2 ^ 32 - 2 ^ 31"

text \<open>
  \<^verbatim>\<open>sizeof(Transaction)\<close> under the LP64 layout: 32 bytes of id, an 8-byte
  \<^verbatim>\<open>time_t\<close>, three 4-byte fields and padding to 56, two doubles, a 4-byte enum and
  padding to a multiple of 8.
\<close>

definition sizeof_Transaction :: nat where
  "sizeof_Transaction = 80"

text \<open>A slot as \<^verbatim>\<open>calloc\<close> and \<^verbatim>\<open>memset(\<dots>, 0, \<dots>)\<close> leave it: every byte zero.\<close>

definition zero_Transaction :: "'d::zero Transaction" where
  "zero_Transaction = \<lparr>txn_id = [], timestamp = 0, tx_pump_id = 0, tx_fuel_type = FUEL_PETROL,
     vehicle_type = VEH_2W, quantity = 0, amount = 0, payment_mode = PAY_CASH\<rparr>"


section \<open>Utility functions\<close>

text \<open>
  \<^verbatim>\<open>printf\<close>'s decimal conversions. \<open>dec\<close> writes a natural number in decimal,
  \<open>pad0\<close> fills with zeros on the left up to the minimum field width (the flag \<^verbatim>\<open>0\<close>),
  and a negative \<^verbatim>\<open>%d\<close> argument has its sign in front of the zeros.
\<close>

definition digit :: "nat \<Rightarrow> char" where
  "digit n = ''0123456789'' ! n"

function dec :: "nat \<Rightarrow> string" where
  "dec n = (if n < 10 then [digit n] else dec (n div 10) @ [digit (n mod 10)])"
  by pat_completeness auto
termination
  by (relation "measure (\<lambda>n. n)") auto

declare dec.simps [simp del]

definition pad0 :: "nat \<Rightarrow> string \<Rightarrow> string" where
  "pad0 w ds = replicate (w - length ds) (CHR ''0'') @ ds"

definition fmt_u :: "nat \<Rightarrow> nat \<Rightarrow> string" where
  "fmt_u w n = pad0 w (dec n)"

definition fmt_d :: "nat \<Rightarrow> int \<Rightarrow> string" where
  "fmt_d w v = (if v < 0 then CHR ''-'' # pad0 (w - 1) (dec (nat (- v))) else pad0 w (dec (nat v)))"

text \<open>\<^verbatim>\<open>snprintf(out, outsz, \<dots>)\<close> stores at most \<open>outsz - 1\<close> characters.\<close>

definition snprintf :: "nat \<Rightarrow> string \<Rightarrow> string" where
  "snprintf outsz text = take (outsz - 1) text"

text \<open>
  \<^verbatim>\<open>generate_txn_id\<close>. The argument \<open>lt\<close> is what \<^verbatim>\<open>localtime(&now)\<close> returned,
  \<open>None\<close> for \<^verbatim>\<open>NULL\<close>. The result is the string written to \<^verbatim>\<open>out\<close> and the
  state with the static counter incremented. The year is converted to
  \<^verbatim>\<open>unsigned\<close> (32 bits) before the remainder is taken.
\<close>

definition generate_txn_id :: "nat \<Rightarrow> tm option \<Rightarrow> 'd state \<Rightarrow> string \<times> 'd state" where
  "generate_txn_id outsz lt s =
    (let s' = s\<lparr>txn_sequence := size_t (txn_sequence s + 1)\<rparr> in
     case lt of
       Some t \<Rightarrow>
         (snprintf outsz (''TXN'' @ fmt_u 4 (nat ((tm_year t + 1900) mod 2 ^ 32) mod 10000)
            @ fmt_d 2 (tm_mon t + 1) @ fmt_d 2 (tm_mday t) @ fmt_d 2 (tm_hour t)
            @ fmt_u 5 (txn_sequence s')), s')
     | None \<Rightarrow> (snprintf outsz (''TXN000000000'' @ fmt_u 5 (txn_sequence s')), s'))"

section \<open>Start-up and the transaction array\<close>

definition PRICE_PETROL :: "'d::{numeral,inverse,power}" where "PRICE_PETROL = 102.50"
definition PRICE_DIESEL :: "'d::{numeral,inverse,power}" where "PRICE_DIESEL = 88.75"
definition PRICE_CNG :: "'d::{numeral,inverse,power}" where "PRICE_CNG = 75.00"
definition OPEN_PETROL :: "'d::{numeral,inverse,power}" where "OPEN_PETROL = 50000.0"
definition OPEN_DIESEL :: "'d::{numeral,inverse,power}" where "OPEN_DIESEL = 50000.0"
definition OPEN_CNG :: "'d::{numeral,inverse,power}" where "OPEN_CNG = 20000.0"

text \<open>
  The globals as the C initialisers leave them before \<^verbatim>\<open>main\<close> runs: objects with
  static storage are zero, \<^verbatim>\<open>transactions\<close> is \<^verbatim>\<open>NULL\<close> (no slot).
\<close>

definition static_state :: "'d::zero state" where
  "static_state =
    \<lparr>fuels = (\<lambda>_. \<lparr>type = FUEL_PETROL, price = 0, opening_stock = 0, current_stock = 0,
                    closing_stock = 0\<rparr>),
     pumps = (\<lambda>_. \<lparr>pump_id = 0, fuel_type = FUEL_PETROL, status = PUMP_ACTIVE,
                    transactions_count = 0, total_quantity = 0, total_amount = 0\<rparr>),
     transactions = [], tx_capacity = 0, tx_count = 0,
     fuel_wise_quantity = (\<lambda>_. 0), fuel_wise_amount = (\<lambda>_. 0),
     payment_mode_amount = (\<lambda>_. 0),
     hour_quantity = (\<lambda>_. 0), hour_amount = (\<lambda>_. 0),
     txn_sequence = 0\<rparr>"


text \<open>
  \<^verbatim>\<open>initialize_system\<close>. \<open>calloc_ok\<close> says whether \<^verbatim>\<open>calloc\<close> returned a block. The
  loop over the pumps is a fold over the indices \<open>0..<PUMP_COUNT\<close>.
\<close>

definition init_pump :: "nat \<Rightarrow> 'd::zero Pump" where
  "init_pump i =
    \<lparr>pump_id = int i + 1,
     fuel_type = (if i < 2 then FUEL_PETROL else if i < 4 then FUEL_DIESEL else FUEL_CNG),
     status = PUMP_ACTIVE, transactions_count = 0, total_quantity = 0, total_amount = 0\<rparr>"

definition initialize_system ::
  "bool \<Rightarrow> 'd::{zero,numeral,inverse,power} state \<Rightarrow> error + 'd state" where
  "initialize_system calloc_ok s =
    (let s1 = s\<lparr>fuels := (fuels s)
               (FUEL_PETROL := \<lparr>type = FUEL_PETROL, price = PRICE_PETROL,
                  opening_stock = OPEN_PETROL, current_stock = OPEN_PETROL,
                  closing_stock = OPEN_PETROL\<rparr>,
                FUEL_DIESEL := \<lparr>type = FUEL_DIESEL, price = PRICE_DIESEL,
                  opening_stock = OPEN_DIESEL, current_stock = OPEN_DIESEL,
                  closing_stock = OPEN_DIESEL\<rparr>,
                FUEL_CNG := \<lparr>type = FUEL_CNG, price = PRICE_CNG,
                  opening_stock = OPEN_CNG, current_stock = OPEN_CNG,
                  closing_stock = OPEN_CNG\<rparr>)\<rparr>;
         s2 = s1\<lparr>pumps := fold (\<lambda>i ps. ps(i := init_pump i)) [0..<PUMP_COUNT] (pumps s1)\<rparr>;
         s3 = s2\<lparr>tx_capacity := INITIAL_TX_CAPACITY\<rparr>
     in if calloc_ok
        then Inr (s3\<lparr>transactions := replicate (tx_capacity s3) zero_Transaction\<rparr>)
        else Inl InitialAllocationFailed)"

definition shutdown_system :: "'d state \<Rightarrow> 'd state" where
  "shutdown_system s = s\<lparr>transactions := [], tx_capacity := 0, tx_count := 0\<rparr>"

text \<open>
  The tail of \<^verbatim>\<open>ensure_tx_capacity\<close>, once \<^verbatim>\<open>realloc\<close> has returned a block for
  \<open>new_capacity * sizeof(Transaction)\<close> bytes, computed in \<^verbatim>\<open>size_t\<close>: the old slots
  are kept, \<^verbatim>\<open>memset\<close> zeroes the slots from \<open>tx_capacity\<close> on, and the globals are
  set. When the capacity or the byte count has wrapped around, the block is shorter
  than \<open>tx_capacity\<close> slots and \<^verbatim>\<open>memset\<close> writes outside it.
\<close>

definition install_block :: "nat \<Rightarrow> 'd::zero state \<Rightarrow> error + 'd state" where
  "install_block new_capacity s =
    (if tx_capacity s \<le> new_capacity \<and> new_capacity * sizeof_Transaction < 2 ^ 64
     then Inr (s\<lparr>transactions := take (tx_capacity s) (transactions s)
                     @ replicate (new_capacity - tx_capacity s) zero_Transaction,
                 tx_capacity := new_capacity\<rparr>)
     else Inl LedgerOutOfBounds)"

text \<open>
  \<^verbatim>\<open>ensure_tx_capacity\<close>. \<open>realloc_ok k n\<close> says whether the \<open>k\<close>-th call of
  \<^verbatim>\<open>realloc\<close> (0 for the doubling, 1 for the fallback), asking for \<open>n\<close> bytes,
  returns a block. The last branch is \<^verbatim>\<open>shutdown_system(); exit(EXIT_FAILURE)\<close>.
\<close>

definition ensure_tx_capacity :: "(nat \<Rightarrow> nat \<Rightarrow> bool) \<Rightarrow> 'd::zero state \<Rightarrow> error + 'd state" where
  "ensure_tx_capacity realloc_ok s =
    (if tx_count s < tx_capacity s then Inr s
     else
       let new_capacity = size_t (tx_capacity s * 2) in
       if realloc_ok 0 (size_t (new_capacity * sizeof_Transaction))
       then install_block new_capacity s
       else
         let new_capacity = size_t (tx_capacity s + 50) in
         if realloc_ok 1 (size_t (new_capacity * sizeof_Transaction))
         then install_block new_capacity s
         else Inl CapacityExpansionFailed)"

text \<open>\<^verbatim>\<open>pump_index_by_id\<close>: the loop from index \<open>i\<close> on, \<open>- 1\<close> when no pump matches.\<close>

function pump_index_from :: "nat \<Rightarrow> (nat \<Rightarrow> 'd Pump) \<Rightarrow> int \<Rightarrow> int" where
  "pump_index_from i ps pid =
    (if i < PUMP_COUNT
     then (if pump_id (ps i) = pid then int i else pump_index_from (Suc i) ps pid)
     else - 1)"
  by pat_completeness auto
termination
  by (relation "measure (\<lambda>(i, ps, pid). PUMP_COUNT - i)") auto

declare pump_index_from.simps [simp del]

definition pump_index_by_id :: "'d state \<Rightarrow> int \<Rightarrow> int" where
  "pump_index_by_id s pid = pump_index_from 0 (pumps s) pid"

section \<open>Core operations\<close>

text \<open>
  \<^verbatim>\<open>record_transaction\<close>, one definition for each block of the function, in the
  order of the source: the store into the array, the pump statistics, the fuel-wise
  accumulators, the payment mode totals and the hour-wise data.
\<close>

definition store_transaction :: "'d Transaction \<Rightarrow> 'd state \<Rightarrow> error + 'd state" where
  "store_transaction tx s =
    (if tx_count s < length (transactions s)
     then Inr (s\<lparr>transactions := (transactions s)[tx_count s := tx],
                 tx_count := size_t (tx_count s + 1)\<rparr>)
     else Inl LedgerOutOfBounds)"

definition update_pump_stats :: "'d::plus Transaction \<Rightarrow> 'd state \<Rightarrow> 'd state" where
  "update_pump_stats tx s =
    (let pidx = pump_index_by_id s (tx_pump_id tx) in
     if pidx \<ge> 0
     then s\<lparr>pumps := (pumps s)(nat pidx := (pumps s (nat pidx))
            \<lparr>transactions_count := sint32 (transactions_count (pumps s (nat pidx)) + 1),
             total_quantity := total_quantity (pumps s (nat pidx)) + quantity tx,
             total_amount := total_amount (pumps s (nat pidx)) + amount tx\<rparr>)\<rparr>
     else s)"

definition update_fuel_wise :: "'d::plus Transaction \<Rightarrow> 'd state \<Rightarrow> 'd state" where
  "update_fuel_wise tx s =
    s\<lparr>fuel_wise_quantity := (fuel_wise_quantity s)
         (tx_fuel_type tx := fuel_wise_quantity s (tx_fuel_type tx) + quantity tx),
      fuel_wise_amount := (fuel_wise_amount s)
         (tx_fuel_type tx := fuel_wise_amount s (tx_fuel_type tx) + amount tx)\<rparr>"

definition update_payment_mode :: "'d::plus Transaction \<Rightarrow> 'd state \<Rightarrow> 'd state" where
  "update_payment_mode tx s =
    s\<lparr>payment_mode_amount := (payment_mode_amount s)
         (payment_mode tx := payment_mode_amount s (payment_mode tx) + amount tx)\<rparr>"

text \<open>\<open>lt\<close> is what \<^verbatim>\<open>localtime(&tx->timestamp)\<close> returned.\<close>

definition update_hour_wise :: "tm option \<Rightarrow> 'd::plus Transaction \<Rightarrow> 'd state \<Rightarrow> error + 'd state" where
  "update_hour_wise lt tx s =
    (case lt of
       None \<Rightarrow> Inr s
     | Some t \<Rightarrow>
         let hour = tm_hour t in
         if 0 \<le> hour \<and> hour < 24
         then Inr (s\<lparr>hour_quantity := (hour_quantity s)
                        (nat hour := hour_quantity s (nat hour) + quantity tx),
                     hour_amount := (hour_amount s)
                        (nat hour := hour_amount s (nat hour) + amount tx)\<rparr>)
         else Inl HourOutOfBounds)"

definition record_transaction ::
  "(nat \<Rightarrow> nat \<Rightarrow> bool) \<Rightarrow> tm option \<Rightarrow> 'd::{zero,plus} Transaction \<Rightarrow> 'd state \<Rightarrow> error + 'd state" where
  "record_transaction realloc_ok lt tx s =
    (case ensure_tx_capacity realloc_ok s of
       Inl e \<Rightarrow> Inl e
     | Inr s1 \<Rightarrow>
        (case store_transaction tx s1 of
           Inl e \<Rightarrow> Inl e
         | Inr s2 \<Rightarrow>
             update_hour_wise lt tx
               (update_payment_mode tx (update_fuel_wise tx (update_pump_stats tx s2)))))"


text \<open>
  What \<^verbatim>\<open>process_sale\<close> reads from standard input, one field for each \<^verbatim>\<open>scanf\<close>
  in the order of the calls; \<open>None\<close> is a call that did not return 1. \<open>in_value\<close> is
  the one \<^verbatim>\<open>%lf\<close> read: the quantity in mode 0, the amount in mode 1.
\<close>

record 'd sale_input =
  in_pump_id :: "int option"
  in_vchoice :: "int option"
  in_mode :: "int option"
  in_value :: "'d option"
  in_paychoice :: "int option"

text \<open>
  What the C library answers during one sale: \<^verbatim>\<open>localtime\<close> inside
  \<^verbatim>\<open>generate_txn_id\<close>, \<^verbatim>\<open>time(NULL)\<close> for the timestamp, \<^verbatim>\<open>localtime\<close> of that
  timestamp inside \<^verbatim>\<open>record_transaction\<close>, and \<^verbatim>\<open>realloc\<close>.
\<close>

record sale_env =
  id_localtime :: "tm option"
  time_now :: int
  tx_localtime :: "tm option"
  realloc_ok :: "nat \<Rightarrow> nat \<Rightarrow> bool"

text \<open>
  How a call of \<^verbatim>\<open>process_sale\<close> ends when it returns: with the receipt of the
  stored transaction, or with one of the messages it prints before an early return.
\<close>

datatype 'd sale_result =
    Receipt "'d Transaction"
  | Invalid_input
  | Invalid_pump_id
  | Pump_not_active
  | Invalid_choice
  | Invalid_quantity
  | Invalid_amount
  | Insufficient_stock

text \<open>The casts \<^verbatim>\<open>(VehicleType)vchoice\<close> and \<^verbatim>\<open>(PaymentMode)paychoice\<close>, and the
  index \<^verbatim>\<open>f\<close> of \<^verbatim>\<open>fuels[f]\<close>; each is applied to a value checked to be 0, 1 or 2.\<close>

definition VehicleType_of :: "int \<Rightarrow> VehicleType" where
  "VehicleType_of v = (if v = 0 then VEH_2W else if v = 1 then VEH_4W else VEH_COMM)"

definition PaymentMode_of :: "int \<Rightarrow> PaymentMode" where
  "PaymentMode_of v = (if v = 0 then PAY_CASH else if v = 1 then PAY_CARD else PAY_WALLET)"

definition FuelType_of :: "int \<Rightarrow> FuelType" where
  "FuelType_of v = (if v = 0 then FUEL_PETROL else if v = 1 then FUEL_DIESEL else FUEL_CNG)"

text \<open>
  The second half of \<^verbatim>\<open>process_sale\<close>, from \<^verbatim>\<open>/* Create transaction */\<close> on: the
  id, the record, the stock deduction and \<^verbatim>\<open>record_transaction\<close>.
\<close>

definition commit_sale ::
  "sale_env \<Rightarrow> int \<Rightarrow> FuelType \<Rightarrow> int \<Rightarrow> 'd \<Rightarrow> 'd \<Rightarrow> int \<Rightarrow> 'd::{zero,plus,minus} state
     \<Rightarrow> error + ('d sale_result \<times> 'd state)" where
  "commit_sale env pid ftype vchoice qty amt paychoice s =
    (let (id, s1) = generate_txn_id 32 (id_localtime env) s;
         tx = zero_Transaction\<lparr>txn_id := id, timestamp := time_now env, tx_pump_id := pid,
                tx_fuel_type := ftype, vehicle_type := VehicleType_of vchoice,
                quantity := qty, amount := amt, payment_mode := PaymentMode_of paychoice\<rparr>;
         s2 = s1\<lparr>fuels := (fuels s1)(ftype := (fuels s1 ftype)
                \<lparr>current_stock := current_stock (fuels s1 ftype) - qty\<rparr>)\<rparr>
     in case record_transaction (realloc_ok env) (tx_localtime env) tx s2 of
          Inl e \<Rightarrow> Inl e
        | Inr s3 \<Rightarrow> Inr (Receipt tx, s3))"

text \<open>
  The part of \<^verbatim>\<open>process_sale\<close> after quantity and amount are known: the stock
  check and the payment mode.
\<close>

definition check_and_pay ::
  "'d sale_input \<Rightarrow> sale_env \<Rightarrow> int \<Rightarrow> FuelType \<Rightarrow> int \<Rightarrow> 'd \<Rightarrow> 'd \<Rightarrow> 'd::{zero,plus,minus,ord} state
     \<Rightarrow> error + ('d sale_result \<times> 'd state)" where
  "check_and_pay inp env pid ftype vchoice qty amt s =
    (if qty > current_stock (fuels s ftype) then Inr (Insufficient_stock, s)
     else case in_paychoice inp of
       None \<Rightarrow> Inr (Invalid_choice, s)
     | Some paychoice \<Rightarrow>
         if paychoice < 0 \<or> paychoice > 2 then Inr (Invalid_choice, s)
         else commit_sale env pid ftype vchoice qty amt paychoice s)"

text \<open>\<^verbatim>\<open>process_sale\<close>, from the first \<^verbatim>\<open>scanf\<close> to the choice of quantity or amount.\<close>

definition process_sale ::
  "'d sale_input \<Rightarrow> sale_env \<Rightarrow> 'd::{zero,plus,minus,times,inverse,ord} state
     \<Rightarrow> error + ('d sale_result \<times> 'd state)" where
  "process_sale inp env s =
    (case in_pump_id inp of
       None \<Rightarrow> Inr (Invalid_input, s)
     | Some pid \<Rightarrow>
        let pidx = pump_index_by_id s pid in
        if pidx < 0 then Inr (Invalid_pump_id, s)
        else if status (pumps s (nat pidx)) \<noteq> PUMP_ACTIVE then Inr (Pump_not_active, s)
        else case in_vchoice inp of
          None \<Rightarrow> Inr (Invalid_choice, s)
        | Some vchoice \<Rightarrow>
           if vchoice < 0 \<or> vchoice > 2 then Inr (Invalid_choice, s)
           else
             let ftype = fuel_type (pumps s (nat pidx));
                 unit_price = price (fuels s ftype)
             in case in_mode inp of
               None \<Rightarrow> Inr (Invalid_choice, s)
             | Some mode \<Rightarrow>
                if mode \<noteq> 0 \<and> mode \<noteq> 1 then Inr (Invalid_choice, s)
                else if mode = 0 then
                  (case in_value inp of
                     None \<Rightarrow> Inr (Invalid_quantity, s)
                   | Some qty \<Rightarrow>
                      if qty \<le> 0 then Inr (Invalid_quantity, s)
                      else check_and_pay inp env pid ftype vchoice qty (qty * unit_price) s)
                else
                  (case in_value inp of
                     None \<Rightarrow> Inr (Invalid_amount, s)
                   | Some amt \<Rightarrow>
                      if amt \<le> 0 then Inr (Invalid_amount, s)
                      else check_and_pay inp env pid ftype vchoice (amt / unit_price) amt s))"

text \<open>\<^verbatim>\<open>add_supply\<close>: the two values read, and the state after the call.\<close>

definition add_supply :: "int option \<Rightarrow> 'd option \<Rightarrow> 'd::{zero,plus,ord} state \<Rightarrow> 'd state" where
  "add_supply in_f in_amt s =
    (case in_f of
       None \<Rightarrow> s
     | Some f \<Rightarrow>
        if f < 0 \<or> f > 2 then s
        else case in_amt of
          None \<Rightarrow> s
        | Some amt \<Rightarrow>
           if amt \<le> 0 then s
           else s\<lparr>fuels := (fuels s)(FuelType_of f := (fuels s (FuelType_of f))
                  \<lparr>current_stock := current_stock (fuels s (FuelType_of f)) + amt\<rparr>)\<rparr>)"

definition PumpStatus_of :: "int \<Rightarrow> PumpStatus" where
  "PumpStatus_of v = (if v = 0 then PUMP_ACTIVE else if v = 1 then PUMP_INACTIVE else PUMP_MAINT)"

definition change_pump_status :: "int option \<Rightarrow> int option \<Rightarrow> 'd state \<Rightarrow> 'd state" where
  "change_pump_status in_pid in_s s =
    (case in_pid of
       None \<Rightarrow> s
     | Some pid \<Rightarrow>
        let idx = pump_index_by_id s pid in
        if idx < 0 then s
        else case in_s of
          None \<Rightarrow> s
        | Some st \<Rightarrow>
           if st < 0 \<or> st > 2 then s
           else s\<lparr>pumps := (pumps s)(nat idx := (pumps s (nat idx))\<lparr>status := PumpStatus_of st\<rparr>)\<rparr>)"

text \<open>\<^verbatim>\<open>generate_daily_report\<close> changes one thing: it copies the current stock of the
  three fuels into their closing stock.\<close>

definition generate_daily_report :: "'d state \<Rightarrow> 'd state" where
  "generate_daily_report s =
    s\<lparr>fuels := fold (\<lambda>f fs. fs(f := (fs f)\<lparr>closing_stock := current_stock (fs f)\<rparr>))
                  [FUEL_PETROL, FUEL_DIESEL, FUEL_CNG] (fuels s)\<rparr>"

text \<open>
  \<^verbatim>\<open>list_transactions\<close>. Each line printed shows the fields of one slot of the
  array; the result is the list of the slots in the order their lines are printed,
  \<open>None\<close> when the function prints \<^verbatim>\<open>No transactions yet.\<close> instead. The loop runs
  \<open>i\<close> from \<open>tx_count - 1\<close> down to 0; \<open>list_from n\<close> is the loop with \<open>n\<close> iterations
  left, that is at \<open>i = n - 1\<close>.
\<close>

fun list_from :: "nat \<Rightarrow> 'd Transaction list \<Rightarrow> error + 'd Transaction list" where
  "list_from 0 ts = Inr []"
| "list_from (Suc i) ts =
    (if i < length ts
     then (case list_from i ts of Inl e \<Rightarrow> Inl e | Inr rows \<Rightarrow> Inr (ts ! i # rows))
     else Inl LedgerOutOfBounds)"

definition list_transactions :: "'d state \<Rightarrow> error + 'd Transaction list option" where
  "list_transactions s =
    (if tx_count s = 0 then Inr None
     else case list_from (tx_count s) (transactions s) of
            Inl e \<Rightarrow> Inl e
          | Inr rows \<Rightarrow> Inr (Some rows))"

section \<open>The menu loop\<close>

text \<open>
  One pass of the loop of \<^verbatim>\<open>main\<close> for the choices that change the state; the other
  choices (4 and 6 to 12, and an invalid choice) only print. Choice 0 leaves the
  loop: \<^verbatim>\<open>main\<close> calls \<^verbatim>\<open>shutdown_system\<close> and returns.
\<close>

datatype 'd command =
    Process_sale "'d sale_input" sale_env
  | Add_supply "int option" "'d option"
  | Change_pump_status "int option" "int option"
  | Generate_daily_report
  | Print_only

definition menu_step ::
  "'d command \<Rightarrow> 'd::{zero,plus,minus,times,inverse,ord} state \<Rightarrow> error + 'd state" where
  "menu_step c s =
    (case c of
       Process_sale inp env \<Rightarrow>
         (case process_sale inp env s of Inl e \<Rightarrow> Inl e | Inr (r, s') \<Rightarrow> Inr s')
     | Add_supply in_f in_amt \<Rightarrow> Inr (add_supply in_f in_amt s)
     | Change_pump_status in_pid in_s \<Rightarrow> Inr (change_pump_status in_pid in_s s)
     | Generate_daily_report \<Rightarrow> Inr (generate_daily_report s)
     | Print_only \<Rightarrow> Inr s)"

fun menu_loop ::
  "'d command list \<Rightarrow> 'd::{zero,plus,minus,times,inverse,ord} state \<Rightarrow> error + 'd state" where
  "menu_loop [] s = Inr s"
| "menu_loop (c # cs) s = (case menu_step c s of Inl e \<Rightarrow> Inl e | Inr s' \<Rightarrow> menu_loop cs s')"

text \<open>\<^verbatim>\<open>main\<close> up to the point where the commands \<open>cs\<close> have been served.\<close>

definition main ::
  "bool \<Rightarrow> 'd command list \<Rightarrow> error + 'd::{zero,plus,minus,times,inverse,ord,numeral,power} state" where
  "main calloc_ok cs =
    (case initialize_system calloc_ok static_state of
       Inl e \<Rightarrow> Inl e
     | Inr s \<Rightarrow> menu_loop cs s)"


section \<open>Predicates used in the statements\<close>

text \<open>
  What holds of the transaction array between two operations: the block is there,
  it has \<open>tx_capacity\<close> slots of which \<open>tx_count\<close> are used, and the allocator
  granted it, so it is shorter than \<open>2 ^ 63\<close> bytes.
\<close>

definition ledger_ok :: "'d state \<Rightarrow> bool" where
  "ledger_ok s \<longleftrightarrow>
     0 < tx_capacity s \<and> tx_count s \<le> tx_capacity s \<and>
     length (transactions s) = tx_capacity s \<and>
     tx_capacity s * sizeof_Transaction < 2 ^ 63"

text \<open>
  The allocator never returns a block of \<open>2 ^ 63\<close> bytes or more (an object is
  not larger than \<^verbatim>\<open>PTRDIFF_MAX\<close> bytes).
\<close>

definition heap_bounded :: "(nat \<Rightarrow> nat \<Rightarrow> bool) \<Rightarrow> bool" where
  "heap_bounded ok \<longleftrightarrow> (\<forall>k n. ok k n \<longrightarrow> n < 2 ^ 63)"

text \<open>\<^verbatim>\<open>localtime\<close> returned \<^verbatim>\<open>NULL\<close>, or a \<^verbatim>\<open>tm_hour\<close> in the range the C standard
  gives it.\<close>

definition hour_valid :: "tm option \<Rightarrow> bool" where
  "hour_valid lt \<longleftrightarrow> (case lt of None \<Rightarrow> True | Some t \<Rightarrow> 0 \<le> tm_hour t \<and> tm_hour t < 24)"

text \<open>
  A series of calls of \<^verbatim>\<open>record_transaction\<close>, each with the answers of
  \<^verbatim>\<open>realloc\<close> and \<^verbatim>\<open>localtime\<close> during the call and the record to append; it stops
  at the first call that does not return.
\<close>

fun record_all ::
  "((nat \<Rightarrow> nat \<Rightarrow> bool) \<times> tm option \<times> 'd::{zero,plus} Transaction) list \<Rightarrow> 'd state
     \<Rightarrow> error + 'd state" where
  "record_all [] s = Inr s"
| "record_all ((ok, lt, tx) # rest) s =
     (case record_transaction ok lt tx s of Inl e \<Rightarrow> Inl e | Inr s' \<Rightarrow> record_all rest s')"

text \<open>
  Every allocator of the series is bounded; and: every allocator of the series
  grants a doubling below \<open>2 ^ 63\<close> bytes and every hour is in range.
\<close>

definition appends_bounded ::
  "((nat \<Rightarrow> nat \<Rightarrow> bool) \<times> tm option \<times> 'd Transaction) list \<Rightarrow> bool" where
  "appends_bounded xs \<longleftrightarrow> (\<forall>(ok, lt, tx) \<in> set xs. heap_bounded ok)"

definition appends_served ::
  "((nat \<Rightarrow> nat \<Rightarrow> bool) \<times> tm option \<times> 'd Transaction) list \<Rightarrow> bool" where
  "appends_served xs \<longleftrightarrow>
     (\<forall>(ok, lt, tx) \<in> set xs. (\<forall>n. n < 2 ^ 63 \<longrightarrow> ok 0 n) \<and> hour_valid lt)"

text \<open>
  The text that \<^verbatim>\<open>generate_txn_id\<close> writes when the counter, already incremented,
  is \<open>n\<close>.
\<close>

definition txn_id_text :: "tm option \<Rightarrow> nat \<Rightarrow> string" where
  "txn_id_text lt n =
    (case lt of
       Some t \<Rightarrow>
         snprintf 32 (''TXN'' @ fmt_u 4 (nat ((tm_year t + 1900) mod 2 ^ 32) mod 10000)
            @ fmt_d 2 (tm_mon t + 1) @ fmt_d 2 (tm_mday t) @ fmt_d 2 (tm_hour t)
            @ fmt_u 5 n)
     | None \<Rightarrow> snprintf 32 (''TXN000000000'' @ fmt_u 5 n))"

text \<open>
  \<^verbatim>\<open>localtime\<close> returned \<^verbatim>\<open>NULL\<close>, or a month, a day of the month and an hour
  in the ranges the C standard gives them.
\<close>

definition tm_valid :: "tm option \<Rightarrow> bool" where
  "tm_valid lt \<longleftrightarrow>
    (case lt of
       None \<Rightarrow> True
     | Some t \<Rightarrow> 0 \<le> tm_mon t \<and> tm_mon t \<le> 11 \<and> 1 \<le> tm_mday t \<and> tm_mday t \<le> 31 \<and>
                0 \<le> tm_hour t \<and> tm_hour t \<le> 23)"

text \<open>The \<^verbatim>\<open>localtime\<close> inside \<^verbatim>\<open>generate_txn_id\<close> is valid at every sale among \<open>cs\<close>.\<close>

definition clocks_valid :: "'d command list \<Rightarrow> bool" where
  "clocks_valid cs \<longleftrightarrow>
     (\<forall>c \<in> set cs. case c of Process_sale inp env \<Rightarrow> tm_valid (id_localtime env) | _ \<Rightarrow> True)"

text \<open>The number that a string of decimal digits writes.\<close>

definition digit_value :: "char \<Rightarrow> nat" where
  "digit_value c = of_char c - 48"

definition decimal_value :: "string \<Rightarrow> nat" where
  "decimal_value ds = foldl (\<lambda>a c. 10 * a + digit_value c) 0 ds"

text \<open>
  What holds of the identifiers between two operations: the counter of
  \<^verbatim>\<open>generate_txn_id\<close> equals the number of stored transactions, and the transaction
  in slot \<open>i\<close> carries the text written when the counter became \<open>i + 1\<close>.
\<close>

definition ids_ok :: "'d state \<Rightarrow> bool" where
  "ids_ok s \<longleftrightarrow>
     txn_sequence s = tx_count s \<and>
     (\<forall>i<tx_count s. \<exists>lt. tm_valid lt \<and> txn_id (transactions s ! i) = txn_id_text lt (i + 1))"

text \<open>The state after the array has been enlarged to \<open>n\<close> slots.\<close>

definition grown :: "nat \<Rightarrow> 'd::zero state \<Rightarrow> 'd state" where
  "grown n s = s\<lparr>transactions := transactions s @ replicate (n - tx_capacity s) zero_Transaction,
                 tx_capacity := n\<rparr>"

text \<open>A pump after its three counters have taken up the transaction \<open>tx\<close>.\<close>

definition pump_credited :: "'d::plus Transaction \<Rightarrow> 'd Pump \<Rightarrow> 'd Pump" where
  "pump_credited tx p =
     p\<lparr>transactions_count := sint32 (transactions_count p + 1),
       total_quantity := total_quantity p + quantity tx,
       total_amount := total_amount p + amount tx\<rparr>"

text \<open>The state after \<open>tx\<close> has been stored in the first free slot.\<close>

definition stored :: "'d Transaction \<Rightarrow> 'd state \<Rightarrow> 'd state" where
  "stored tx s = s\<lparr>transactions := (transactions s)[tx_count s := tx], tx_count := tx_count s + 1\<rparr>"

text \<open>
  The state \<^verbatim>\<open>initialize_system\<close> leaves when \<^verbatim>\<open>calloc\<close> succeeds.
\<close>

definition initial_state :: "'d::{zero,numeral,inverse,power} state" where
  "initial_state = static_state
     \<lparr>fuels := (\<lambda>f. case f of
          FUEL_PETROL \<Rightarrow> \<lparr>type = FUEL_PETROL, price = PRICE_PETROL, opening_stock = OPEN_PETROL,
             current_stock = OPEN_PETROL, closing_stock = OPEN_PETROL\<rparr>
        | FUEL_DIESEL \<Rightarrow> \<lparr>type = FUEL_DIESEL, price = PRICE_DIESEL, opening_stock = OPEN_DIESEL,
             current_stock = OPEN_DIESEL, closing_stock = OPEN_DIESEL\<rparr>
        | FUEL_CNG \<Rightarrow> \<lparr>type = FUEL_CNG, price = PRICE_CNG, opening_stock = OPEN_CNG,
             current_stock = OPEN_CNG, closing_stock = OPEN_CNG\<rparr>),
      pumps := (\<lambda>i. if i < 6 then init_pump i else pumps static_state i),
      transactions := replicate 50 zero_Transaction,
      tx_capacity := 50\<rparr>"

text \<open>
  A ledger with two stored transactions, the first on pump 1 and the second on pump 3,
  in an array of 50 slots.
\<close>

definition first_sale :: "real Transaction" where
  "first_sale = \<lparr>txn_id = ''TXN202610301700001'', timestamp = 1793379600, tx_pump_id = 1,
     tx_fuel_type = FUEL_PETROL, vehicle_type = VEH_4W, quantity = 10, amount = 1025,
     payment_mode = PAY_CASH\<rparr>"

definition second_sale :: "real Transaction" where
  "second_sale = \<lparr>txn_id = ''TXN202610301700002'', timestamp = 1793379660, tx_pump_id = 3,
     tx_fuel_type = FUEL_DIESEL, vehicle_type = VEH_2W, quantity = 4, amount = 355,
     payment_mode = PAY_CARD\<rparr>"

definition two_sales :: "real state" where
  "two_sales = static_state
     \<lparr>transactions := first_sale # second_sale # replicate 48 zero_Transaction,
      tx_capacity := 50, tx_count := 2\<rparr>"

text \<open>
  The record that \<^verbatim>\<open>process_sale\<close> builds for a sale, and the state it hands
  to \<^verbatim>\<open>record_transaction\<close>: the counter of the ids advanced and the stock deducted.
\<close>

definition sale_record ::
  "sale_env \<Rightarrow> int \<Rightarrow> FuelType \<Rightarrow> int \<Rightarrow> 'd \<Rightarrow> 'd \<Rightarrow> int \<Rightarrow> 'd::zero state \<Rightarrow> 'd Transaction" where
  "sale_record env pid ftype vchoice qty amt paychoice s =
     \<lparr>txn_id = fst (generate_txn_id 32 (id_localtime env) s), timestamp = time_now env,
      tx_pump_id = pid, tx_fuel_type = ftype, vehicle_type = VehicleType_of vchoice,
      quantity = qty, amount = amt, payment_mode = PaymentMode_of paychoice\<rparr>"

definition sale_deducted :: "FuelType \<Rightarrow> 'd::minus \<Rightarrow> 'd state \<Rightarrow> 'd state" where
  "sale_deducted ftype qty s =
     s\<lparr>txn_sequence := size_t (txn_sequence s + 1),
       fuels := (fuels s)(ftype := (fuels s ftype)
          \<lparr>current_stock := current_stock (fuels s ftype) - qty\<rparr>)\<rparr>"

text \<open>
  The fuel, the quantity and the amount of a sale on the pump with id \<open>pid\<close>, from
  the mode and the value read: \<^verbatim>\<open>amt = qty * unit_price\<close> in mode 0,
  \<^verbatim>\<open>qty = amt / unit_price\<close> in mode 1.
\<close>

definition sale_fuel :: "'d state \<Rightarrow> int \<Rightarrow> FuelType" where
  "sale_fuel s pid = fuel_type (pumps s (nat (pump_index_by_id s pid)))"

definition sale_quantity :: "'d::inverse state \<Rightarrow> int \<Rightarrow> int \<Rightarrow> 'd \<Rightarrow> 'd" where
  "sale_quantity s pid mode x =
     (if mode = 0 then x else x / price (fuels s (sale_fuel s pid)))"

definition sale_amount :: "'d::times state \<Rightarrow> int \<Rightarrow> int \<Rightarrow> 'd \<Rightarrow> 'd" where
  "sale_amount s pid mode x =
     (if mode = 0 then x * price (fuels s (sale_fuel s pid)) else x)"

text \<open>
  The recoverable failures of a sale attempt, as the specification lists them: the
  pump id is not read or is the id of no pump, the pump is not active, the vehicle
  type, the mode or the payment mode is not read or is not one of the choices, the
  quantity or amount is not read or is not positive, the quantity exceeds the
  current stock of the fuel.
\<close>

definition rejected :: "'d::{zero,inverse,ord} sale_input \<Rightarrow> 'd state \<Rightarrow> bool" where
  "rejected inp s \<longleftrightarrow>
    (case in_pump_id inp of
       None \<Rightarrow> True
     | Some pid \<Rightarrow>
        pump_index_by_id s pid < 0 \<or>
        status (pumps s (nat (pump_index_by_id s pid))) \<noteq> PUMP_ACTIVE \<or>
        (case in_vchoice inp of None \<Rightarrow> True | Some v \<Rightarrow> v < 0 \<or> 2 < v) \<or>
        (case in_mode inp of
           None \<Rightarrow> True
         | Some m \<Rightarrow>
            (m \<noteq> 0 \<and> m \<noteq> 1) \<or>
            (case in_value inp of
               None \<Rightarrow> True
             | Some x \<Rightarrow>
                x \<le> 0 \<or>
                current_stock (fuels s (sale_fuel s pid)) < sale_quantity s pid m x)) \<or>
        (case in_paychoice inp of None \<Rightarrow> True | Some p \<Rightarrow> p < 0 \<or> 2 < p))"

text \<open>The allocator of every sale among the commands \<open>cs\<close> is bounded.\<close>

definition heaps_bounded :: "'d command list \<Rightarrow> bool" where
  "heaps_bounded cs \<longleftrightarrow>
     (\<forall>c \<in> set cs. case c of Process_sale inp env \<Rightarrow> heap_bounded (realloc_ok env) | _ \<Rightarrow> True)"

text \<open>
  Concrete inputs: a \<^verbatim>\<open>struct tm\<close> for 30 October 2026, 17 hours; an allocator
  that refuses every request; one that grants every request below \<open>2 ^ 40\<close> bytes;
  one that grants every request below \<open>2 ^ 63\<close> bytes; a transaction whose pump id
  belongs to no pump.
\<close>

definition five_pm :: tm where
  "five_pm = \<lparr>tm_year = 126, tm_mon = 9, tm_mday = 30, tm_hour = 17\<rparr>"

definition no_memory :: "nat \<Rightarrow> nat \<Rightarrow> bool" where
  "no_memory k n = False"

definition some_memory :: "nat \<Rightarrow> nat \<Rightarrow> bool" where
  "some_memory k n = (n < 2 ^ 40)"

definition plenty_of_memory :: "nat \<Rightarrow> nat \<Rightarrow> bool" where
  "plenty_of_memory k n = (n < 2 ^ 63)"

definition stray_sale :: "real Transaction" where
  "stray_sale = \<lparr>txn_id = ''TXN202610301700003'', timestamp = 1793379720, tx_pump_id = 9,
     tx_fuel_type = FUEL_CNG, vehicle_type = VEH_COMM, quantity = 2, amount = 150,
     payment_mode = PAY_WALLET\<rparr>"

text \<open>
  Concrete inputs of \<^verbatim>\<open>process_sale\<close>: 100 litres on pump 1, paid in cash; 60000
  litres on the same pump; and the answers of the C library at 17 hours with some
  memory left. A run of the menu loop that serves the second and then the first.
\<close>

definition hundred_litres :: "real sale_input" where
  "hundred_litres = \<lparr>in_pump_id = Some 1, in_vchoice = Some 1, in_mode = Some 0,
     in_value = Some 100, in_paychoice = Some 0\<rparr>"

definition too_much :: "real sale_input" where
  "too_much = \<lparr>in_pump_id = Some 1, in_vchoice = Some 1, in_mode = Some 0,
     in_value = Some 60000, in_paychoice = Some 0\<rparr>"

definition at_five_pm :: sale_env where
  "at_five_pm = \<lparr>id_localtime = Some five_pm, time_now = 1793379600,
     tx_localtime = Some five_pm, realloc_ok = some_memory\<rparr>"

definition two_attempts :: "real command list" where
  "two_attempts = [Process_sale too_much at_five_pm, Process_sale hundred_litres at_five_pm]"

text \<open>
  A ledger whose 100 slots are all used; an allocator that refuses the doubling and
  grants the fallback; and 501 appends, the \<open>i\<close>-th with timestamp \<open>i\<close>.
\<close>

definition full_ledger :: "real state" where
  "full_ledger = static_state
     \<lparr>transactions := replicate 100 stray_sale, tx_capacity := 100, tx_count := 100\<rparr>"

definition fallback_only :: "nat \<Rightarrow> nat \<Rightarrow> bool" where
  "fallback_only k n = (k = 1 \<and> n < 2 ^ 40)"

definition many_appends :: "((nat \<Rightarrow> nat \<Rightarrow> bool) \<times> tm option \<times> real Transaction) list" where
  "many_appends = map (\<lambda>i. (plenty_of_memory, None, stray_sale\<lparr>timestamp := int i\<rparr>)) [0..<501]"

text \<open>
  A transaction on pump 5, and the initial state with the count of that pump at
  \<^verbatim>\<open>INT_MAX\<close>.
\<close>

definition fifth_pump_sale :: "real Transaction" where
  "fifth_pump_sale = \<lparr>txn_id = ''TXN202610301700004'', timestamp = 1793379780, tx_pump_id = 5,
     tx_fuel_type = FUEL_CNG, vehicle_type = VEH_COMM, quantity = 2, amount = 150,
     payment_mode = PAY_CARD\<rparr>"

definition worn_counter :: "real state" where
  "worn_counter = initial_state
     \<lparr>pumps := (pumps initial_state)
        (4 := (pumps initial_state 4)\<lparr>transactions_count := 2147483647\<rparr>)\<rparr>"

section \<open>Binary64 arithmetic\<close>

text \<open>
  The arithmetic of \<^verbatim>\<open>double\<close> on the machines the program is built for: IEEE 754
  binary64 with the default rounding, to the nearest value with a significand of 53
  bits, a tie going to the even significand. A value is a rational number or a NaN.
  Each operation computes the exact result and rounds it; an operation on a NaN gives
  a NaN and every comparison with a NaN is false. The exponent is not bounded in this
  model: it has no infinities, no overflow and no subnormal numbers, and a division by
  zero gives a NaN. None of the values below comes near the ends of the exponent
  range.

  \<open>binary_exponent q\<close> is the exponent \<open>e\<close> with \<open>2 ^ e \<le> \<bar>q\<bar> < 2 ^ (e + 1)\<close>,
  found from the bit lengths of the numerator and the denominator; the doubles of
  that binade are the multiples of \<open>2 ^ (e - 52)\<close>.
\<close>

datatype binary64 = Finite rat | NaN

definition binary_exponent :: "rat \<Rightarrow> int" where
  "binary_exponent q =
    (let n = fst (quotient_of \<bar>q\<bar>); d = snd (quotient_of \<bar>q\<bar>);
         k = bitlen n - bitlen d
     in if 2 powi k \<le> \<bar>q\<bar> then k else k - 1)"

definition round_half_even :: "rat \<Rightarrow> int" where
  "round_half_even x =
    (let f = \<lfloor>x\<rfloor> in
     if x - of_int f < 1 / 2 then f
     else if 1 / 2 < x - of_int f then f + 1
     else if even f then f else f + 1)"

definition round_binary64 :: "rat \<Rightarrow> rat" where
  "round_binary64 q =
    (if q = 0 then 0
     else let ulp = 2 powi (binary_exponent q - 52)
          in of_int (round_half_even (q / ulp)) * ulp)"

instantiation binary64 :: "{zero,plus,minus,times,inverse,ord}"
begin

definition zero_binary64 :: binary64 where
  "zero_binary64 = Finite 0"

definition plus_binary64 :: "binary64 \<Rightarrow> binary64 \<Rightarrow> binary64" where
  "plus_binary64 x y =
    (case x of Finite a \<Rightarrow> (case y of Finite b \<Rightarrow> Finite (round_binary64 (a + b)) | NaN \<Rightarrow> NaN)
     | NaN \<Rightarrow> NaN)"

definition minus_binary64 :: "binary64 \<Rightarrow> binary64 \<Rightarrow> binary64" where
  "minus_binary64 x y =
    (case x of Finite a \<Rightarrow> (case y of Finite b \<Rightarrow> Finite (round_binary64 (a - b)) | NaN \<Rightarrow> NaN)
     | NaN \<Rightarrow> NaN)"

definition times_binary64 :: "binary64 \<Rightarrow> binary64 \<Rightarrow> binary64" where
  "times_binary64 x y =
    (case x of Finite a \<Rightarrow> (case y of Finite b \<Rightarrow> Finite (round_binary64 (a * b)) | NaN \<Rightarrow> NaN)
     | NaN \<Rightarrow> NaN)"

definition divide_binary64 :: "binary64 \<Rightarrow> binary64 \<Rightarrow> binary64" where
  "divide_binary64 x y =
    (case x of
       Finite a \<Rightarrow>
         (case y of Finite b \<Rightarrow> if b = 0 then NaN else Finite (round_binary64 (a / b))
          | NaN \<Rightarrow> NaN)
     | NaN \<Rightarrow> NaN)"

definition inverse_binary64 :: "binary64 \<Rightarrow> binary64" where
  "inverse_binary64 x =
    (case x of Finite b \<Rightarrow> if b = 0 then NaN else Finite (round_binary64 (1 / b)) | NaN \<Rightarrow> NaN)"

definition less_eq_binary64 :: "binary64 \<Rightarrow> binary64 \<Rightarrow> bool" where
  "less_eq_binary64 x y =
    (case x of Finite a \<Rightarrow> (case y of Finite b \<Rightarrow> a \<le> b | NaN \<Rightarrow> False) | NaN \<Rightarrow> False)"

definition less_binary64 :: "binary64 \<Rightarrow> binary64 \<Rightarrow> bool" where
  "less_binary64 x y =
    (case x of Finite a \<Rightarrow> (case y of Finite b \<Rightarrow> a < b | NaN \<Rightarrow> False) | NaN \<Rightarrow> False)"

instance ..

end

section \<open>The ledger and its sums\<close>

text \<open>
  The ledger: the used slots of the array, oldest first. The part of it sold as fuel
  \<open>f\<close>, and the part of it sold at the pump with id \<open>pid\<close>.
\<close>

definition ledger :: "'d state \<Rightarrow> 'd Transaction list" where
  "ledger s = take (tx_count s) (transactions s)"

definition fuel_ledger :: "FuelType \<Rightarrow> 'd state \<Rightarrow> 'd Transaction list" where
  "fuel_ledger f s = filter (\<lambda>t. tx_fuel_type t = f) (ledger s)"

definition pump_ledger :: "int \<Rightarrow> 'd state \<Rightarrow> 'd Transaction list" where
  "pump_ledger pid s = filter (\<lambda>t. tx_pump_id t = pid) (ledger s)"

text \<open>
  The sum of a list of doubles the way the loops of the program compute one
  (\<^verbatim>\<open>total_amt = 0.0\<close>, then \<^verbatim>\<open>total_amt += ...\<close> for each element in turn):
  from zero, adding the elements from left to right.
\<close>

definition total :: "'d::{zero,plus} list \<Rightarrow> 'd" where
  "total xs = foldl (+) 0 xs"

text \<open>
  The sums the aggregation invariant compares: the fuel-wise accumulators over the
  three fuels (the totals of \<^verbatim>\<open>generate_daily_report\<close>), \<open>total_amount\<close> over
  the six pumps, and the fields of the ledger records.
\<close>

definition fuel_wise_amount_sum :: "'d::{zero,plus} state \<Rightarrow> 'd" where
  "fuel_wise_amount_sum s = total (map (fuel_wise_amount s) [FUEL_PETROL, FUEL_DIESEL, FUEL_CNG])"

definition fuel_wise_quantity_sum :: "'d::{zero,plus} state \<Rightarrow> 'd" where
  "fuel_wise_quantity_sum s =
     total (map (fuel_wise_quantity s) [FUEL_PETROL, FUEL_DIESEL, FUEL_CNG])"

definition pump_amount_sum :: "'d::{zero,plus} state \<Rightarrow> 'd" where
  "pump_amount_sum s = total (map (\<lambda>i. total_amount (pumps s i)) [0..<PUMP_COUNT])"

definition ledger_amount_sum :: "'d::{zero,plus} state \<Rightarrow> 'd" where
  "ledger_amount_sum s = total (map amount (ledger s))"

definition ledger_quantity_sum :: "'d::{zero,plus} state \<Rightarrow> 'd" where
  "ledger_quantity_sum s = total (map quantity (ledger s))"

text \<open>
  What the accumulators are in terms of the ledger, whatever the arithmetic of
  \<^verbatim>\<open>double\<close>: each fuel-wise accumulator is the \<open>total\<close> of its field over the
  records of that fuel, each pump carries the \<open>total\<close> of the records made at it, in
  the order of the ledger; the pumps carry the ids 1 to 6 and every record names one
  of them.
\<close>

definition buckets_ok :: "'d::{zero,plus} state \<Rightarrow> bool" where
  "buckets_ok s \<longleftrightarrow>
     (\<forall>f. fuel_wise_amount s f = total (map amount (fuel_ledger f s)) \<and>
          fuel_wise_quantity s f = total (map quantity (fuel_ledger f s))) \<and>
     (\<forall>i<PUMP_COUNT. pump_id (pumps s i) = int i + 1 \<and>
          total_amount (pumps s i) = total (map amount (pump_ledger (int i + 1) s)) \<and>
          total_quantity (pumps s i) = total (map quantity (pump_ledger (int i + 1) s))) \<and>
     (\<forall>t \<in> set (ledger s). 1 \<le> tx_pump_id t \<and> tx_pump_id t \<le> int PUMP_COUNT)"

text \<open>
  The quantity of fuel \<open>f\<close> sold: the sum over the sales of that fuel in the ledger,
  each successful sale being one record. The supply additions of fuel \<open>f\<close>: the
  amounts that \<^verbatim>\<open>add_supply\<close> accepted (a fuel index in range, an amount that is
  not \<open>\<le> 0\<close>) among the commands served, in the order served, and their sum.
\<close>

definition sold :: "'d::{zero,plus} state \<Rightarrow> FuelType \<Rightarrow> 'd" where
  "sold s f = total (map quantity (fuel_ledger f s))"



text \<open>
  The pumps carry the ids and the fuels that \<^verbatim>\<open>initialize_system\<close> gave them,
  and all are active.
\<close>

definition pumps_installed :: "'d state \<Rightarrow> bool" where
  "pumps_installed s \<longleftrightarrow>
     (\<forall>i<PUMP_COUNT. pump_id (pumps s i) = int i + 1 \<and>
        fuel_type (pumps s i) =
          (if i < 2 then FUEL_PETROL else if i < 4 then FUEL_DIESEL else FUEL_CNG) \<and>
        status (pumps s i) = PUMP_ACTIVE)"

text \<open>
  The state \<open>s'\<close> is the state \<open>s\<close> after the sale \<open>tx\<close> has been served with room
  in the array: the record is the last of the ledger, its quantity is taken from the
  stock of its fuel, and its fields are added to the counters of its pump and to the
  accumulators of its fuel.
\<close>

definition sale_effect :: "'d::{plus,minus} Transaction \<Rightarrow> 'd state \<Rightarrow> 'd state \<Rightarrow> bool" where
  "sale_effect tx s s' \<longleftrightarrow>
     ledger_ok s' \<and> tx_count s' = tx_count s + 1 \<and> tx_capacity s' = tx_capacity s \<and>
     ledger s' = ledger s @ [tx] \<and>
     fuels s' = (fuels s)(tx_fuel_type tx := (fuels s (tx_fuel_type tx))
         \<lparr>current_stock := current_stock (fuels s (tx_fuel_type tx)) - quantity tx\<rparr>) \<and>
     (\<forall>i<PUMP_COUNT. pumps s' i =
         (if tx_pump_id tx = int i + 1 then pump_credited tx (pumps s i) else pumps s i)) \<and>
     fuel_wise_quantity s' = (fuel_wise_quantity s)
          (tx_fuel_type tx := fuel_wise_quantity s (tx_fuel_type tx) + quantity tx) \<and>
     fuel_wise_amount s' = (fuel_wise_amount s)
          (tx_fuel_type tx := fuel_wise_amount s (tx_fuel_type tx) + amount tx)"

section \<open>Inputs in binary64\<close>

text \<open>
  The double that a decimal text denotes, as the compiler reads a literal and
  \<^verbatim>\<open>scanf("%lf")\<close> reads a number: the nearest one.
\<close>

definition binary64_of_rat :: "rat \<Rightarrow> binary64" where
  "binary64_of_rat q = Finite (round_binary64 q)"

text \<open>
  The state \<^verbatim>\<open>initialize_system\<close> leaves when \<^verbatim>\<open>calloc\<close> succeeds, with
  \<^verbatim>\<open>double\<close> read as \<open>binary64\<close>: the literals of the source are converted to the
  nearest double.
\<close>

definition initial_binary64 :: "binary64 state" where
  "initial_binary64 = static_state
     \<lparr>fuels := (\<lambda>f. case f of
          FUEL_PETROL \<Rightarrow> \<lparr>type = FUEL_PETROL, price = binary64_of_rat 102.50,
             opening_stock = binary64_of_rat 50000.0, current_stock = binary64_of_rat 50000.0,
             closing_stock = binary64_of_rat 50000.0\<rparr>
        | FUEL_DIESEL \<Rightarrow> \<lparr>type = FUEL_DIESEL, price = binary64_of_rat 88.75,
             opening_stock = binary64_of_rat 50000.0, current_stock = binary64_of_rat 50000.0,
             closing_stock = binary64_of_rat 50000.0\<rparr>
        | FUEL_CNG \<Rightarrow> \<lparr>type = FUEL_CNG, price = binary64_of_rat 75.00,
             opening_stock = binary64_of_rat 20000.0, current_stock = binary64_of_rat 20000.0,
             closing_stock = binary64_of_rat 20000.0\<rparr>),
      pumps := (\<lambda>i. if i < 6 then init_pump i else pumps static_state i),
      transactions := replicate 50 zero_Transaction,
      tx_capacity := 50\<rparr>"

text \<open>
  Sales typed at the menu: for an amount of money (mode 1) and for a quantity
  (mode 0), on the pump with id \<open>pid\<close>, for a four-wheeler paying cash. Three sales
  for the amounts 672.69, 4237.32 and 3819.11 on the pumps 1, 2 and 1; two sales of
  0.1 and 0.2 litres on pump 1; and a sale on pump 1 whose quantity is typed as
  \<^verbatim>\<open>nan\<close>, which \<^verbatim>\<open>scanf("%lf")\<close> accepts.
\<close>

definition amount_sale :: "int \<Rightarrow> binary64 \<Rightarrow> binary64 sale_input" where
  "amount_sale pid x = \<lparr>in_pump_id = Some pid, in_vchoice = Some 1, in_mode = Some 1,
     in_value = Some x, in_paychoice = Some 0\<rparr>"

definition quantity_sale :: "int \<Rightarrow> binary64 \<Rightarrow> binary64 sale_input" where
  "quantity_sale pid x = \<lparr>in_pump_id = Some pid, in_vchoice = Some 1, in_mode = Some 0,
     in_value = Some x, in_paychoice = Some 0\<rparr>"

definition three_amounts :: "binary64 command list" where
  "three_amounts =
     [Process_sale (amount_sale 1 (binary64_of_rat 672.69)) at_five_pm,
      Process_sale (amount_sale 2 (binary64_of_rat 4237.32)) at_five_pm,
      Process_sale (amount_sale 1 (binary64_of_rat 3819.11)) at_five_pm]"

definition two_quantities :: "binary64 command list" where
  "two_quantities =
     [Process_sale (quantity_sale 1 (binary64_of_rat 0.1)) at_five_pm,
      Process_sale (quantity_sale 1 (binary64_of_rat 0.2)) at_five_pm]"

definition nan_quantity :: "binary64 command list" where
  "nan_quantity = [Process_sale (quantity_sale 1 NaN) at_five_pm]"


section \<open>Basic facts\<close>

lemma size_t_id: "n < 2 ^ 64 \<Longrightarrow> size_t n = n"
  by (simp add: size_t_def)

lemma list_from_rev: "n \<le> length ts \<Longrightarrow> list_from n ts = Inr (rev (take n ts))"
  by (induction n) (simp_all add: take_Suc_conv_app_nth)

lemma pump_index_from_found:
  "0 \<le> pump_index_from i ps pid \<Longrightarrow> pump_id (ps (nat (pump_index_from i ps pid))) = pid"
proof (induction i ps pid rule: pump_index_from.induct)
  case (1 i ps pid)
  show ?case
  proof (cases "i < PUMP_COUNT")
    case False
    with "1.prems" show ?thesis by (simp add: pump_index_from.simps [of i])
  next
    case True
    show ?thesis
    proof (cases "pump_id (ps i) = pid")
      case True
      with \<open>i < PUMP_COUNT\<close> show ?thesis by (simp add: pump_index_from.simps [of i])
    next
      case False
      with \<open>i < PUMP_COUNT\<close> "1.IH" "1.prems" show ?thesis
        by (simp add: pump_index_from.simps [of i])
    qed
  qed
qed

lemma pump_index_from_none:
  "pump_index_from i ps pid < 0 \<longleftrightarrow> (\<forall>j. i \<le> j \<and> j < PUMP_COUNT \<longrightarrow> pump_id (ps j) \<noteq> pid)"
proof (induction i ps pid rule: pump_index_from.induct)
  case (1 i ps pid)
  show ?case
  proof (cases "i < PUMP_COUNT")
    case False
    then show ?thesis by (simp add: pump_index_from.simps [of i])
  next
    case True
    show ?thesis
    proof (cases "pump_id (ps i) = pid")
      case True
      with \<open>i < PUMP_COUNT\<close> show ?thesis by (auto simp add: pump_index_from.simps [of i])
    next
      case False
      have "(\<forall>j. i \<le> j \<and> j < PUMP_COUNT \<longrightarrow> pump_id (ps j) \<noteq> pid)
         \<longleftrightarrow> (\<forall>j. Suc i \<le> j \<and> j < PUMP_COUNT \<longrightarrow> pump_id (ps j) \<noteq> pid)"
        using False by (metis Suc_leI le_neq_implies_less Suc_leD)
      with False \<open>i < PUMP_COUNT\<close> "1.IH" show ?thesis
        by (simp add: pump_index_from.simps [of i])
    qed
  qed
qed

section \<open>The initial state\<close>

lemma initialize_system_eq:
  "initialize_system True static_state = Inr initial_state"
proof -
  have p: "fold (\<lambda>i ps. ps(i := init_pump i)) [0..<PUMP_COUNT] ps
      = (\<lambda>i. if i < 6 then init_pump i else ps i)" for ps :: "nat \<Rightarrow> 'a Pump"
  proof (rule ext)
    fix i :: nat
    consider "i = 0" | "i = 1" | "i = 2" | "i = 3" | "i = 4" | "i = 5" | "6 \<le> i"
      by arith
    then show "fold (\<lambda>i ps. ps(i := init_pump i)) [0..<PUMP_COUNT] ps i
        = (if i < 6 then init_pump i else ps i)"
      by cases (simp_all add: PUMP_COUNT_def upt_rec eval_nat_numeral)
  qed
  have f: "(fuels static_state)(FUEL_PETROL := a, FUEL_DIESEL := b, FUEL_CNG := c)
      = (\<lambda>f. case f of FUEL_PETROL \<Rightarrow> a | FUEL_DIESEL \<Rightarrow> b | FUEL_CNG \<Rightarrow> c)" for a b c :: "'a Fuel"
    by (rule ext) (simp split: FuelType.split)
  show ?thesis
    unfolding initialize_system_def Let_def
    by (simp add: p f initial_state_def INITIAL_TX_CAPACITY_def)
qed

lemma ledger_ok_initial_state: "ledger_ok initial_state"
  by (simp add: ledger_ok_def initial_state_def static_state_def sizeof_Transaction_def)

lemma pump_index_by_id_unfold:
  "pump_index_by_id s pid =
    (if pump_id (pumps s 0) = pid then 0
     else if pump_id (pumps s 1) = pid then 1
     else if pump_id (pumps s 2) = pid then 2
     else if pump_id (pumps s 3) = pid then 3
     else if pump_id (pumps s 4) = pid then 4
     else if pump_id (pumps s 5) = pid then 5
     else - 1)"
  unfolding pump_index_by_id_def
  apply (subst pump_index_from.simps)
  apply (subst pump_index_from.simps)
  apply (subst pump_index_from.simps)
  apply (subst pump_index_from.simps)
  apply (subst pump_index_from.simps)
  apply (subst pump_index_from.simps)
  apply (subst pump_index_from.simps)
  apply (simp add: PUMP_COUNT_def eval_nat_numeral)
  done

lemma pump_index_by_id_initial:
  "pump_index_by_id (initial_state :: 'a::{zero,numeral,inverse,power} state) pid =
     (if 1 \<le> pid \<and> pid \<le> 6 then pid - 1 else - 1)"
  by (simp add: pump_index_by_id_unfold initial_state_def init_pump_def)


section \<open>The transaction array\<close>

lemma ensure_tx_capacity_eq:
  assumes "ledger_ok s"
  shows "ensure_tx_capacity ok s =
    (if tx_count s < tx_capacity s then Inr s
     else if ok 0 (tx_capacity s * 2 * sizeof_Transaction) then Inr (grown (tx_capacity s * 2) s)
     else if ok 1 ((tx_capacity s + 50) * sizeof_Transaction) then Inr (grown (tx_capacity s + 50) s)
     else Inl CapacityExpansionFailed)"
proof -
  from assms have c: "tx_capacity s * 80 < 2 ^ 63" and l: "length (transactions s) = tx_capacity s"
    by (simp_all add: ledger_ok_def sizeof_Transaction_def)
  have a: "size_t (tx_capacity s * 2) = tx_capacity s * 2"
    using c by (simp add: size_t_def)
  have b: "size_t (tx_capacity s * 2 * sizeof_Transaction) = tx_capacity s * 2 * sizeof_Transaction"
    using c by (simp add: size_t_def sizeof_Transaction_def)
  have a': "size_t (tx_capacity s + 50) = tx_capacity s + 50"
    using c by (simp add: size_t_def)
  have b': "size_t ((tx_capacity s + 50) * sizeof_Transaction) = (tx_capacity s + 50) * sizeof_Transaction"
    using c by (simp add: size_t_def sizeof_Transaction_def)
  have i: "install_block (tx_capacity s * 2) s = Inr (grown (tx_capacity s * 2) s)"
    using c l by (simp add: install_block_def grown_def sizeof_Transaction_def)
  have i': "install_block (tx_capacity s + 50) s = Inr (grown (tx_capacity s + 50) s)"
    using c l by (simp add: install_block_def grown_def sizeof_Transaction_def)
  show ?thesis
    by (simp add: ensure_tx_capacity_def Let_def a b a' b' i i')
qed

lemma ledger_ok_grown:
  assumes "ledger_ok s" "tx_capacity s < n" "n * sizeof_Transaction < 2 ^ 63"
  shows "ledger_ok (grown n s)" "tx_count (grown n s) < tx_capacity (grown n s)"
  using assms by (simp_all add: ledger_ok_def grown_def)

lemma ensure_tx_capacity_Inr:
  assumes "ledger_ok s" "heap_bounded ok" "ensure_tx_capacity ok s = Inr s1"
  shows "ledger_ok s1 \<and> tx_count s1 < tx_capacity s1 \<and>
         (\<exists>n. tx_capacity s \<le> n \<and> s1 = grown n s)"
proof -
  have pos: "0 < tx_capacity s" using assms(1) by (simp add: ledger_ok_def)
  have same: "grown (tx_capacity s) s = s" by (simp add: grown_def)
  consider (room) "tx_count s < tx_capacity s" "s1 = s"
    | (double) "\<not> tx_count s < tx_capacity s" "ok 0 (tx_capacity s * 2 * sizeof_Transaction)"
        "s1 = grown (tx_capacity s * 2) s"
    | (fallback) "\<not> tx_count s < tx_capacity s" "ok 1 ((tx_capacity s + 50) * sizeof_Transaction)"
        "s1 = grown (tx_capacity s + 50) s"
    using assms(3) by (simp add: ensure_tx_capacity_eq [OF assms(1)] split: if_splits)
  then show ?thesis
  proof cases
    case room
    with assms(1) same show ?thesis by (metis order_refl)
  next
    case double
    from double(2) assms(2) have "tx_capacity s * 2 * sizeof_Transaction < 2 ^ 63"
      by (simp add: heap_bounded_def)
    moreover have "\<exists>n. tx_capacity s \<le> n \<and> s1 = grown n s"
      using double(3) by (intro exI [of _ "tx_capacity s * 2"]) simp
    ultimately show ?thesis
      using ledger_ok_grown [OF assms(1), of "tx_capacity s * 2"] pos double(3) by simp
  next
    case fallback
    from fallback(2) assms(2) have "(tx_capacity s + 50) * sizeof_Transaction < 2 ^ 63"
      by (simp add: heap_bounded_def)
    moreover have "\<exists>n. tx_capacity s \<le> n \<and> s1 = grown n s"
      using fallback(3) by (intro exI [of _ "tx_capacity s + 50"]) simp
    ultimately show ?thesis
      using ledger_ok_grown [OF assms(1), of "tx_capacity s + 50"] fallback(3) by simp
  qed
qed


lemma ensure_tx_capacity_total:
  assumes "ledger_ok s" "ensure_tx_capacity ok s \<noteq> Inl CapacityExpansionFailed"
  shows "\<exists>s1. ensure_tx_capacity ok s = Inr s1"
  using assms(2) by (simp add: ensure_tx_capacity_eq [OF assms(1)] split: if_splits)

lemma record_transaction_eq:
  assumes "ledger_ok s" "heap_bounded ok" "ensure_tx_capacity ok s = Inr s1"
  shows "record_transaction ok lt tx s =
     update_hour_wise lt tx (update_payment_mode tx (update_fuel_wise tx
       (update_pump_stats tx (stored tx s1))))"
proof -
  from ensure_tx_capacity_Inr [OF assms]
  have ok1: "ledger_ok s1" and lt1: "tx_count s1 < tx_capacity s1" by simp_all
  from ok1 have len: "length (transactions s1) = tx_capacity s1"
    and b: "tx_capacity s1 * 80 < 2 ^ 63"
    by (simp_all add: ledger_ok_def sizeof_Transaction_def)
  from lt1 b have "tx_count s1 + 1 < 2 ^ 64" by simp
  then have "size_t (tx_count s1 + 1) = tx_count s1 + 1" by (rule size_t_id)
  then have "store_transaction tx s1 = Inr (stored tx s1)"
    using lt1 len by (simp add: store_transaction_def stored_def)
  then show ?thesis
    using assms(3) by (simp add: record_transaction_def)
qed


lemma record_transaction_result:
  fixes tx :: "'d::{zero,plus} Transaction"
  assumes "ledger_ok s" "heap_bounded ok"
    and "ensure_tx_capacity ok s \<noteq> Inl CapacityExpansionFailed" "hour_valid lt"
  shows "\<exists>s'. record_transaction ok lt tx s = Inr s' \<and> ledger_ok s' \<and>
     tx_count s' = tx_count s + 1 \<and>
     take (tx_count s) (transactions s') = take (tx_count s) (transactions s) \<and>
     transactions s' ! tx_count s = tx \<and>
     fuels s' = fuels s \<and> txn_sequence s' = txn_sequence s \<and>
     pumps s' = pumps (update_pump_stats tx s) \<and>
     fuel_wise_quantity s' = (fuel_wise_quantity s)
        (tx_fuel_type tx := fuel_wise_quantity s (tx_fuel_type tx) + quantity tx) \<and>
     fuel_wise_amount s' = (fuel_wise_amount s)
        (tx_fuel_type tx := fuel_wise_amount s (tx_fuel_type tx) + amount tx) \<and>
     payment_mode_amount s' = (payment_mode_amount s)
        (payment_mode tx := payment_mode_amount s (payment_mode tx) + amount tx) \<and>
     hour_quantity s' = (case lt of None \<Rightarrow> hour_quantity s
        | Some t \<Rightarrow> (hour_quantity s)
            (nat (tm_hour t) := hour_quantity s (nat (tm_hour t)) + quantity tx)) \<and>
     hour_amount s' = (case lt of None \<Rightarrow> hour_amount s
        | Some t \<Rightarrow> (hour_amount s)
            (nat (tm_hour t) := hour_amount s (nat (tm_hour t)) + amount tx))"
proof -
  from ensure_tx_capacity_total [OF assms(1,3)]
  obtain s1 where s1: "ensure_tx_capacity ok s = Inr s1" by blast
  from ensure_tx_capacity_Inr [OF assms(1,2) s1]
  obtain n where ok1: "ledger_ok s1" and room: "tx_count s1 < tx_capacity s1"
    and n: "tx_capacity s \<le> n" and g: "s1 = grown n s" by blast
  from assms(1) have len: "length (transactions s) = tx_capacity s"
    and le: "tx_count s \<le> tx_capacity s"
    by (simp_all add: ledger_ok_def)
  from room g have room': "tx_count s < n" by (simp add: grown_def)
  from ok1 g have b: "n * sizeof_Transaction < 2 ^ 63" and pos: "0 < n"
    by (simp_all add: ledger_ok_def grown_def)
  let ?s2 = "update_payment_mode tx (update_fuel_wise tx (update_pump_stats tx (stored tx s1)))"
  have eq: "record_transaction ok lt tx s = update_hour_wise lt tx ?s2"
    by (rule record_transaction_eq [OF assms(1,2) s1])
  have pumps2: "pumps ?s2 = pumps (update_pump_stats tx s)"
    by (simp add: update_payment_mode_def update_fuel_wise_def update_pump_stats_def
        stored_def g grown_def pump_index_by_id_def Let_def)
  have led2: "transactions ?s2 = (transactions s @ replicate (n - tx_capacity s) zero_Transaction)
       [tx_count s := tx]" "tx_count ?s2 = tx_count s + 1" "tx_capacity ?s2 = n"
    by (simp_all add: update_payment_mode_def update_fuel_wise_def update_pump_stats_def
        stored_def g grown_def Let_def)
  have rest2: "fuels ?s2 = fuels s" "txn_sequence ?s2 = txn_sequence s"
     "hour_quantity ?s2 = hour_quantity s" "hour_amount ?s2 = hour_amount s"
    by (simp_all add: update_payment_mode_def update_fuel_wise_def update_pump_stats_def
        stored_def g grown_def Let_def)
  have acc2: "fuel_wise_quantity ?s2 = (fuel_wise_quantity s)
        (tx_fuel_type tx := fuel_wise_quantity s (tx_fuel_type tx) + quantity tx)"
     "fuel_wise_amount ?s2 = (fuel_wise_amount s)
        (tx_fuel_type tx := fuel_wise_amount s (tx_fuel_type tx) + amount tx)"
     "payment_mode_amount ?s2 = (payment_mode_amount s)
        (payment_mode tx := payment_mode_amount s (payment_mode tx) + amount tx)"
    by (simp_all add: update_payment_mode_def update_fuel_wise_def update_pump_stats_def
        stored_def g grown_def Let_def)
  have ok2: "ledger_ok ?s2"
    using room' b pos n len by (simp add: ledger_ok_def led2)
  have take2: "take (tx_count s) (transactions ?s2) = take (tx_count s) (transactions s)"
    using le len by (simp add: led2)
  have nth2: "transactions ?s2 ! tx_count s = tx"
    using room' n len by (simp add: led2)
  show ?thesis
  proof (cases lt)
    case None
    then have "update_hour_wise lt tx ?s2 = Inr ?s2"
      by (simp add: update_hour_wise_def)
    with eq None ok2 take2 nth2 pumps2 led2 rest2 acc2 show ?thesis
      by simp
  next
    case (Some t)
    with assms(4) have h: "0 \<le> tm_hour t" "tm_hour t < 24"
      by (simp_all add: hour_valid_def)
    let ?s3 = "?s2\<lparr>hour_quantity := (hour_quantity ?s2)
                    (nat (tm_hour t) := hour_quantity ?s2 (nat (tm_hour t)) + quantity tx),
                  hour_amount := (hour_amount ?s2)
                    (nat (tm_hour t) := hour_amount ?s2 (nat (tm_hour t)) + amount tx)\<rparr>"
    have "update_hour_wise lt tx ?s2 = Inr ?s3"
      using Some h by (simp add: update_hour_wise_def Let_def)
    moreover have "ledger_ok ?s3" using ok2 by (simp add: ledger_ok_def)
    ultimately show ?thesis
      using eq Some take2 nth2 pumps2 led2 rest2 acc2 by simp
  qed
qed


lemma pumps_update_pump_stats_credited:
  "pumps (update_pump_stats tx s) =
    (if 0 \<le> pump_index_by_id s (tx_pump_id tx)
     then (pumps s)(nat (pump_index_by_id s (tx_pump_id tx)) :=
            pump_credited tx (pumps s (nat (pump_index_by_id s (tx_pump_id tx)))))
     else pumps s)"
  by (simp add: update_pump_stats_def pump_credited_def Let_def)

lemma pump_index_by_id_unknown:
  "pump_index_by_id s pid < 0 \<longleftrightarrow> (\<forall>i<PUMP_COUNT. pump_id (pumps s i) \<noteq> pid)"
  by (simp add: pump_index_by_id_def pump_index_from_none)

lemma heap_bounded_no_memory: "heap_bounded no_memory"
  by (simp add: heap_bounded_def no_memory_def)

lemma heap_bounded_some_memory: "heap_bounded some_memory"
  by (simp add: heap_bounded_def some_memory_def)

lemma ensure_tx_capacity_room:
  "tx_count s < tx_capacity s \<Longrightarrow> ensure_tx_capacity ok s = Inr s"
  by (simp add: ensure_tx_capacity_def)

lemma initial_state_counts:
  "tx_count (initial_state :: 'a::{zero,numeral,inverse,power} state) = 0"
  "tx_capacity (initial_state :: 'a::{zero,numeral,inverse,power} state) = 50"
  "txn_sequence (initial_state :: 'a::{zero,numeral,inverse,power} state) = 0"
  by (simp_all add: initial_state_def static_state_def)

lemma pump_index_from_first:
  "pump_index_from k ps pid = int i \<longleftrightarrow>
     k \<le> i \<and> i < PUMP_COUNT \<and> pump_id (ps i) = pid \<and>
     (\<forall>j. k \<le> j \<and> j < i \<longrightarrow> pump_id (ps j) \<noteq> pid)"
proof (induction k ps pid rule: pump_index_from.induct)
  case (1 k ps pid)
  show ?case
  proof (cases "k < PUMP_COUNT")
    case False
    then show ?thesis by (simp add: pump_index_from.simps [of k])
  next
    case True
    show ?thesis
    proof (cases "pump_id (ps k) = pid")
      case m: True
      have "k \<le> i \<and> i < PUMP_COUNT \<and> pump_id (ps i) = pid \<and>
          (\<forall>j. k \<le> j \<and> j < i \<longrightarrow> pump_id (ps j) \<noteq> pid) \<longleftrightarrow> i = k"
        using m True by (metis le_neq_implies_less order_refl less_irrefl leD)
      with m True show ?thesis by (simp add: pump_index_from.simps [of k]) auto
    next
      case n: False
      have "k \<le> i \<and> i < PUMP_COUNT \<and> pump_id (ps i) = pid \<and>
          (\<forall>j. k \<le> j \<and> j < i \<longrightarrow> pump_id (ps j) \<noteq> pid) \<longleftrightarrow>
        Suc k \<le> i \<and> i < PUMP_COUNT \<and> pump_id (ps i) = pid \<and>
          (\<forall>j. Suc k \<le> j \<and> j < i \<longrightarrow> pump_id (ps j) \<noteq> pid)"
        using n by (metis Suc_leD Suc_leI le_neq_implies_less)
      with n True "1.IH" show ?thesis by (simp add: pump_index_from.simps [of k])
    qed
  qed
qed

lemma pump_index_from_nonneg:
  "0 \<le> pump_index_from k ps pid \<Longrightarrow> pump_index_from k ps pid = int (nat (pump_index_from k ps pid))"
  by simp

text \<open>The pump that \<^verbatim>\<open>pump_index_by_id\<close> finds is the first one with the id.\<close>

lemma pumps_update_pump_stats_first:
  "pumps (update_pump_stats tx s) i =
    (if i < PUMP_COUNT \<and> pump_id (pumps s i) = tx_pump_id tx \<and>
        (\<forall>j<i. pump_id (pumps s j) \<noteq> tx_pump_id tx)
     then pump_credited tx (pumps s i) else pumps s i)"
proof -
  let ?r = "pump_index_by_id s (tx_pump_id tx)"
  let ?first = "i < PUMP_COUNT \<and> pump_id (pumps s i) = tx_pump_id tx \<and>
        (\<forall>j<i. pump_id (pumps s j) \<noteq> tx_pump_id tx)"
  have f: "?r = int i \<longleftrightarrow> ?first"
    by (simp add: pump_index_by_id_def pump_index_from_first)
  have c: "pumps (update_pump_stats tx s) i = pump_credited tx (pumps s i)" if "?r = int i"
    using that by (simp add: pumps_update_pump_stats_credited)
  have u: "pumps (update_pump_stats tx s) i = pumps s i" if "?r \<noteq> int i"
  proof (cases "0 \<le> ?r")
    case False
    then show ?thesis by (simp add: pumps_update_pump_stats_credited)
  next
    case True
    with that have "nat ?r \<noteq> i" by auto
    with True show ?thesis by (simp add: pumps_update_pump_stats_credited)
  qed
  show ?thesis
  proof (cases ?first)
    case True
    with f have "?r = int i" by blast
    from c [OF this] show ?thesis by (simp only: if_P [OF True])
  next
    case False
    with f have "?r \<noteq> int i" by blast
    from u [OF this] show ?thesis by (simp only: if_not_P [OF False])
  qed
qed

lemma ledger_ok_worn_counter: "ledger_ok worn_counter"
  using ledger_ok_initial_state [where 'a = real]
  by (simp add: ledger_ok_def worn_counter_def)

section \<open>Aggregation\<close>

text \<open>
  C7. \<^verbatim>\<open>record_transaction\<close>, once the array has room for the record (the capacity
  step did not end the process), never fails and returns a state in which: when
  \<^verbatim>\<open>localtime\<close> returned \<^verbatim>\<open>NULL\<close>, the two hour arrays are unchanged; when it
  returned a time, the bucket of its hour has taken up the quantity and the amount;
  and in both cases the fuel-wise quantity and amount and the payment-mode amount
  have taken up the record, and so have the three counters of one pump, the first
  among the six whose \<open>pump_id\<close> is the record's, every other pump being unchanged.
  The count of that pump is incremented as a 32-bit \<^verbatim>\<open>int\<close>: by 1 below
  \<^verbatim>\<open>INT_MAX\<close>, and to \<open>- 2147483648\<close> at \<^verbatim>\<open>INT_MAX\<close>.
\<close>

theorem record_transaction_hour_bucket:
  fixes tx :: "'d::{zero,plus} Transaction"
  assumes "ledger_ok s" and "heap_bounded ok"
    and "ensure_tx_capacity ok s \<noteq> Inl CapacityExpansionFailed"
    and "lt = None \<or> (\<exists>t. lt = Some t \<and> 0 \<le> tm_hour t \<and> tm_hour t < 24)"
  shows "\<exists>s'. record_transaction ok lt tx s = Inr s' \<and>
     hour_quantity s' = (case lt of None \<Rightarrow> hour_quantity s
        | Some t \<Rightarrow> (hour_quantity s)
            (nat (tm_hour t) := hour_quantity s (nat (tm_hour t)) + quantity tx)) \<and>
     hour_amount s' = (case lt of None \<Rightarrow> hour_amount s
        | Some t \<Rightarrow> (hour_amount s)
            (nat (tm_hour t) := hour_amount s (nat (tm_hour t)) + amount tx)) \<and>
     fuel_wise_quantity s' = (fuel_wise_quantity s)
        (tx_fuel_type tx := fuel_wise_quantity s (tx_fuel_type tx) + quantity tx) \<and>
     fuel_wise_amount s' = (fuel_wise_amount s)
        (tx_fuel_type tx := fuel_wise_amount s (tx_fuel_type tx) + amount tx) \<and>
     payment_mode_amount s' = (payment_mode_amount s)
        (payment_mode tx := payment_mode_amount s (payment_mode tx) + amount tx) \<and>
     (\<forall>i. pumps s' i =
        (if i < PUMP_COUNT \<and> pump_id (pumps s i) = tx_pump_id tx \<and>
            (\<forall>j<i. pump_id (pumps s j) \<noteq> tx_pump_id tx)
         then (pumps s i)
            \<lparr>transactions_count := sint32 (transactions_count (pumps s i) + 1),
             total_quantity := total_quantity (pumps s i) + quantity tx,
             total_amount := total_amount (pumps s i) + amount tx\<rparr>
         else pumps s i)) \<and>
     (\<forall>c. - 2147483648 \<le> c \<and> c < 2147483647 \<longrightarrow> sint32 (c + 1) = c + 1) \<and>
     sint32 (2147483647 + 1) = - 2147483648"
proof -
  from assms(4) have "hour_valid lt"
    by (auto simp add: hour_valid_def)
  from record_transaction_result [OF assms(1-3) this, of tx]
  obtain s' where r: "record_transaction ok lt tx s = Inr s'"
    and p: "pumps s' = pumps (update_pump_stats tx s)"
    and h: "hour_quantity s' = (case lt of None \<Rightarrow> hour_quantity s
        | Some t \<Rightarrow> (hour_quantity s)
            (nat (tm_hour t) := hour_quantity s (nat (tm_hour t)) + quantity tx))"
      "hour_amount s' = (case lt of None \<Rightarrow> hour_amount s
        | Some t \<Rightarrow> (hour_amount s)
            (nat (tm_hour t) := hour_amount s (nat (tm_hour t)) + amount tx))"
    and a: "fuel_wise_quantity s' = (fuel_wise_quantity s)
        (tx_fuel_type tx := fuel_wise_quantity s (tx_fuel_type tx) + quantity tx)"
      "fuel_wise_amount s' = (fuel_wise_amount s)
        (tx_fuel_type tx := fuel_wise_amount s (tx_fuel_type tx) + amount tx)"
      "payment_mode_amount s' = (payment_mode_amount s)
        (payment_mode tx := payment_mode_amount s (payment_mode tx) + amount tx)"
    by blast
  have q: "\<forall>i. pumps s' i =
        (if i < PUMP_COUNT \<and> pump_id (pumps s i) = tx_pump_id tx \<and>
            (\<forall>j<i. pump_id (pumps s j) \<noteq> tx_pump_id tx)
         then (pumps s i)
            \<lparr>transactions_count := sint32 (transactions_count (pumps s i) + 1),
             total_quantity := total_quantity (pumps s i) + quantity tx,
             total_amount := total_amount (pumps s i) + amount tx\<rparr>
         else pumps s i)"
    by (intro allI) (simp only: p pumps_update_pump_stats_first pump_credited_def)
  have w: "\<forall>c. - 2147483648 \<le> c \<and> c < 2147483647 \<longrightarrow> sint32 (c + 1) = c + 1"
    by (simp add: sint32_def)
  have m: "sint32 (2147483647 + 1) = - 2147483648"
    by (simp add: sint32_def)
  from r h a q w m show ?thesis by blast
qed

theorem record_transaction_hour_bucket_witness:
  "(\<exists>s'. record_transaction no_memory None first_sale initial_state = Inr s' \<and>
      hour_amount s' = hour_amount initial_state \<and>
      fuel_wise_amount s' FUEL_PETROL = 1025 \<and> payment_mode_amount s' PAY_CASH = 1025 \<and>
      total_amount (pumps s' 0) = 1025 \<and> transactions_count (pumps s' 0) = 1 \<and>
      pumps s' 4 = pumps initial_state 4) \<and>
   (\<exists>s'. record_transaction no_memory (Some five_pm) fifth_pump_sale initial_state = Inr s' \<and>
      hour_amount s' 17 = 150 \<and> hour_quantity s' 17 = 2 \<and>
      fuel_wise_amount s' FUEL_CNG = 150 \<and>
      total_amount (pumps s' 4) = 150 \<and> transactions_count (pumps s' 4) = 1 \<and>
      pumps s' 0 = pumps initial_state 0) \<and>
   (\<exists>s'. record_transaction no_memory None fifth_pump_sale worn_counter = Inr s' \<and>
      transactions_count (pumps s' 4) = - 2147483648)"
proof -
  let ?s = "initial_state :: real state"
  have e: "ensure_tx_capacity no_memory ?s \<noteq> Inl CapacityExpansionFailed"
    by (simp add: ensure_tx_capacity_room initial_state_counts)
  have e': "ensure_tx_capacity no_memory worn_counter \<noteq> Inl CapacityExpansionFailed"
    by (simp add: ensure_tx_capacity_room initial_state_counts worn_counter_def)
  have z: "fuel_wise_amount ?s = (\<lambda>_. 0)" "payment_mode_amount ?s = (\<lambda>_. 0)"
      "hour_amount ?s = (\<lambda>_. 0)" "hour_quantity ?s = (\<lambda>_. 0)"
    by (simp_all add: initial_state_def static_state_def)
  have p: "pumps ?s 0 = init_pump 0" "pumps ?s 4 = init_pump 4"
    by (simp_all add: initial_state_def)
  have ids: "\<And>j. j < 6 \<Longrightarrow> pump_id (pumps ?s j) = int j + 1"
    by (simp add: initial_state_def init_pump_def)
  have f: "tx_fuel_type first_sale = FUEL_PETROL" "payment_mode first_sale = PAY_CASH"
      "amount first_sale = 1025" "quantity first_sale = 10" "tx_pump_id first_sale = 1"
    by (simp_all add: first_sale_def)
  have g: "tx_fuel_type fifth_pump_sale = FUEL_CNG" "amount fifth_pump_sale = 150"
      "quantity fifth_pump_sale = 2" "tx_pump_id fifth_pump_sale = 5"
    by (simp_all add: fifth_pump_sale_def)
  have h: "tm_hour five_pm = 17" by (simp add: five_pm_def)
  have w: "pumps worn_counter 4 = (init_pump 4)\<lparr>transactions_count := 2147483647\<rparr>"
    "\<And>j. j < 4 \<Longrightarrow> pump_id (pumps worn_counter j) = int j + 1"
    by (simp_all add: worn_counter_def initial_state_def init_pump_def)
  from record_transaction_hour_bucket
    [OF ledger_ok_initial_state heap_bounded_no_memory e, of None first_sale]
  have a: "\<exists>s'. record_transaction no_memory None first_sale ?s = Inr s' \<and>
      hour_amount s' = hour_amount ?s \<and>
      fuel_wise_amount s' FUEL_PETROL = 1025 \<and> payment_mode_amount s' PAY_CASH = 1025 \<and>
      total_amount (pumps s' 0) = 1025 \<and> transactions_count (pumps s' 0) = 1 \<and>
      pumps s' 4 = pumps ?s 4"
    by (auto simp add: f z p ids PUMP_COUNT_def init_pump_def sint32_def)
  from record_transaction_hour_bucket
    [OF ledger_ok_initial_state heap_bounded_no_memory e, of "Some five_pm" fifth_pump_sale]
  have b: "\<exists>s'. record_transaction no_memory (Some five_pm) fifth_pump_sale ?s = Inr s' \<and>
      hour_amount s' 17 = 150 \<and> hour_quantity s' 17 = 2 \<and>
      fuel_wise_amount s' FUEL_CNG = 150 \<and>
      total_amount (pumps s' 4) = 150 \<and> transactions_count (pumps s' 4) = 1 \<and>
      pumps s' 0 = pumps ?s 0"
    by (auto simp add: g h z p ids PUMP_COUNT_def init_pump_def sint32_def)
  from record_transaction_hour_bucket
    [OF ledger_ok_worn_counter heap_bounded_no_memory e', of None fifth_pump_sale]
  have c: "\<exists>s'. record_transaction no_memory None fifth_pump_sale worn_counter = Inr s' \<and>
      transactions_count (pumps s' 4) = - 2147483648"
    by (auto simp add: g w PUMP_COUNT_def init_pump_def sint32_def)
  from a b c show ?thesis by blast
qed

text \<open>
  C9. When no pump has the id of the record, \<^verbatim>\<open>record_transaction\<close> still stores
  the record in the next slot, leaving the earlier ones as they were, and still updates
  the fuel-wise, payment-mode and hour-wise accumulators; every pump is unchanged, and
  the call returns normally.
\<close>

theorem record_transaction_unknown_pump:
  fixes tx :: "'d::{zero,plus} Transaction"
  assumes "ledger_ok s" and "heap_bounded ok"
    and "ensure_tx_capacity ok s \<noteq> Inl CapacityExpansionFailed"
    and "hour_valid lt"
    and "\<forall>i<PUMP_COUNT. pump_id (pumps s i) \<noteq> tx_pump_id tx"
  shows "\<exists>s'. record_transaction ok lt tx s = Inr s' \<and>
     tx_count s' = tx_count s + 1 \<and>
     transactions s' ! tx_count s = tx \<and>
     take (tx_count s) (transactions s') = take (tx_count s) (transactions s) \<and>
     pumps s' = pumps s \<and>
     fuel_wise_quantity s' = (fuel_wise_quantity s)
        (tx_fuel_type tx := fuel_wise_quantity s (tx_fuel_type tx) + quantity tx) \<and>
     fuel_wise_amount s' = (fuel_wise_amount s)
        (tx_fuel_type tx := fuel_wise_amount s (tx_fuel_type tx) + amount tx) \<and>
     payment_mode_amount s' = (payment_mode_amount s)
        (payment_mode tx := payment_mode_amount s (payment_mode tx) + amount tx) \<and>
     hour_quantity s' = (case lt of None \<Rightarrow> hour_quantity s
        | Some t \<Rightarrow> (hour_quantity s)
            (nat (tm_hour t) := hour_quantity s (nat (tm_hour t)) + quantity tx)) \<and>
     hour_amount s' = (case lt of None \<Rightarrow> hour_amount s
        | Some t \<Rightarrow> (hour_amount s)
            (nat (tm_hour t) := hour_amount s (nat (tm_hour t)) + amount tx))"
proof -
  from assms(5) have "pump_index_by_id s (tx_pump_id tx) < 0"
    by (simp add: pump_index_by_id_unknown)
  then have "pumps (update_pump_stats tx s) = pumps s"
    by (simp add: pumps_update_pump_stats_credited)
  with record_transaction_result [OF assms(1-4), of tx]
  show ?thesis
    by auto
qed

theorem record_transaction_unknown_pump_witness:
  "\<exists>s'. record_transaction no_memory (Some five_pm) stray_sale initial_state = Inr s' \<and>
      tx_count s' = 1 \<and> transactions s' ! 0 = stray_sale \<and>
      pumps s' = pumps initial_state \<and>
      fuel_wise_amount s' FUEL_CNG = 150 \<and> payment_mode_amount s' PAY_WALLET = 150 \<and>
      hour_amount s' 17 = 150"
proof -
  have e: "ensure_tx_capacity no_memory (initial_state :: real state) \<noteq> Inl CapacityExpansionFailed"
    by (simp add: ensure_tx_capacity_room initial_state_counts)
  have v: "hour_valid (Some five_pm)"
    by (simp add: hour_valid_def five_pm_def)
  have u: "\<forall>i<PUMP_COUNT. pump_id (pumps (initial_state :: real state) i) \<noteq> tx_pump_id stray_sale"
    by (simp add: PUMP_COUNT_def initial_state_def init_pump_def stray_sale_def)
  have z: "fuel_wise_amount (initial_state :: real state) = (\<lambda>_. 0)"
      "payment_mode_amount (initial_state :: real state) = (\<lambda>_. 0)"
      "hour_amount (initial_state :: real state) = (\<lambda>_. 0)"
    by (simp_all add: initial_state_def static_state_def)
  have f: "tx_fuel_type stray_sale = FUEL_CNG" "payment_mode stray_sale = PAY_WALLET"
      "amount stray_sale = 150"
    by (simp_all add: stray_sale_def)
  have h: "tm_hour five_pm = 17" by (simp add: five_pm_def)
  from record_transaction_unknown_pump
    [OF ledger_ok_initial_state heap_bounded_no_memory e v u]
  show ?thesis
    by (auto simp add: initial_state_counts z f h)
qed


section \<open>Sales\<close>

lemma record_transaction_outcomes:
  fixes tx :: "'d::{zero,plus} Transaction"
  assumes "ledger_ok s" "heap_bounded ok"
  shows "record_transaction ok lt tx s = Inl CapacityExpansionFailed \<or>
    record_transaction ok lt tx s = Inl HourOutOfBounds \<or>
    (\<exists>s'. record_transaction ok lt tx s = Inr s' \<and>
       ledger_ok s' \<and> tx_count s' = tx_count s + 1 \<and> txn_sequence s' = txn_sequence s \<and>
       fuels s' = fuels s \<and>
       take (tx_count s) (transactions s') = take (tx_count s) (transactions s) \<and>
       transactions s' ! tx_count s = tx)"
proof (cases "ensure_tx_capacity ok s = Inl CapacityExpansionFailed")
  case True
  then show ?thesis by (simp add: record_transaction_def)
next
  case False
  show ?thesis
  proof (cases "hour_valid lt")
    case True
    from record_transaction_result [OF assms False True, of tx]
    obtain s2 where "record_transaction ok lt tx s = Inr s2" "ledger_ok s2"
      "tx_count s2 = tx_count s + 1" "txn_sequence s2 = txn_sequence s" "fuels s2 = fuels s"
      "take (tx_count s) (transactions s2) = take (tx_count s) (transactions s)"
      "transactions s2 ! tx_count s = tx"
      by blast
    then show ?thesis by simp
  next
    case bad: False
    then obtain t where t: "lt = Some t" "\<not> (0 \<le> tm_hour t \<and> tm_hour t < 24)"
      by (auto simp add: hour_valid_def split: option.splits)
    from ensure_tx_capacity_total [OF assms(1) False]
    obtain s1 where s1: "ensure_tx_capacity ok s = Inr s1" by blast
    have "record_transaction ok lt tx s = Inl HourOutOfBounds"
      using t by (simp add: record_transaction_eq [OF assms s1] update_hour_wise_def Let_def)
    then show ?thesis by simp
  qed
qed

lemma record_transaction_not_out_of_bounds:
  fixes tx :: "'d::{zero,plus} Transaction"
  assumes "ledger_ok s" "heap_bounded ok"
  shows "record_transaction ok lt tx s \<noteq> Inl LedgerOutOfBounds"
  using record_transaction_outcomes [OF assms, of lt tx] by auto

lemma record_transaction_Inr:
  fixes tx :: "'d::{zero,plus} Transaction"
  assumes "ledger_ok s" "heap_bounded ok" "record_transaction ok lt tx s = Inr s'"
  shows "ledger_ok s'" "tx_count s' = tx_count s + 1" "txn_sequence s' = txn_sequence s"
    "fuels s' = fuels s"
    "take (tx_count s) (transactions s') = take (tx_count s) (transactions s)"
    "transactions s' ! tx_count s = tx"
  using record_transaction_outcomes [OF assms(1,2), of lt tx] assms(3) by auto

lemma generate_txn_id_state:
  "snd (generate_txn_id outsz lt s) = s\<lparr>txn_sequence := size_t (txn_sequence s + 1)\<rparr>"
  by (simp add: generate_txn_id_def Let_def split: option.split)

lemma commit_sale_eq:
  "commit_sale env pid ftype vchoice qty amt paychoice s =
    (case record_transaction (realloc_ok env) (tx_localtime env)
        (sale_record env pid ftype vchoice qty amt paychoice s)
        (sale_deducted ftype qty s) of
       Inl e \<Rightarrow> Inl e
     | Inr s3 \<Rightarrow> Inr (Receipt (sale_record env pid ftype vchoice qty amt paychoice s), s3))"
  by (simp add: commit_sale_def sale_record_def sale_deducted_def Let_def split_def
      generate_txn_id_state zero_Transaction_def cong: sum.case_cong)

lemma commit_sale_Inr:
  assumes "commit_sale env pid ftype vchoice qty amt paychoice s = Inr (r, s')"
  shows "r = Receipt (sale_record env pid ftype vchoice qty amt paychoice s)"
    and "record_transaction (realloc_ok env) (tx_localtime env)
        (sale_record env pid ftype vchoice qty amt paychoice s) (sale_deducted ftype qty s) = Inr s'"
proof -
  let ?rt = "record_transaction (realloc_ok env) (tx_localtime env)
        (sale_record env pid ftype vchoice qty amt paychoice s) (sale_deducted ftype qty s)"
  have "r = Receipt (sale_record env pid ftype vchoice qty amt paychoice s) \<and> ?rt = Inr s'"
    using assms by (cases ?rt) (simp_all add: commit_sale_eq)
  then show "r = Receipt (sale_record env pid ftype vchoice qty amt paychoice s)"
    and "?rt = Inr s'" by simp_all
qed

lemma commit_sale_Inl:
  assumes "commit_sale env pid ftype vchoice qty amt paychoice s = Inl e"
  shows "record_transaction (realloc_ok env) (tx_localtime env)
        (sale_record env pid ftype vchoice qty amt paychoice s) (sale_deducted ftype qty s) = Inl e"
  using assms
  by (cases "record_transaction (realloc_ok env) (tx_localtime env)
        (sale_record env pid ftype vchoice qty amt paychoice s) (sale_deducted ftype qty s)")
     (simp_all add: commit_sale_eq)

lemma ledger_ok_sale_deducted: "ledger_ok (sale_deducted ftype qty s) = ledger_ok s"
  by (simp add: ledger_ok_def sale_deducted_def)

lemma sale_deducted_fields:
  "tx_count (sale_deducted ftype qty s) = tx_count s"
  "transactions (sale_deducted ftype qty s) = transactions s"
  "txn_sequence (sale_deducted ftype qty s) = size_t (txn_sequence s + 1)"
  "pumps (sale_deducted ftype qty s) = pumps s"
  by (simp_all add: sale_deducted_def)

lemma process_sale_rejected:
  "rejected inp s \<Longrightarrow> \<exists>r. process_sale inp env s = Inr (r, s) \<and> (\<forall>tx. r \<noteq> Receipt tx)"
  by (auto simp add: rejected_def process_sale_def check_and_pay_def Let_def sale_fuel_def
      sale_quantity_def split: option.splits)

lemma process_sale_accepted:
  "\<not> rejected inp s \<Longrightarrow>
   \<exists>pid v m x p. in_pump_id inp = Some pid \<and> in_vchoice inp = Some v \<and> in_mode inp = Some m \<and>
      in_value inp = Some x \<and> in_paychoice inp = Some p \<and>
      process_sale inp env s =
        commit_sale env pid (sale_fuel s pid) v (sale_quantity s pid m x) (sale_amount s pid m x) p s"
  by (auto simp add: rejected_def process_sale_def check_and_pay_def Let_def sale_fuel_def
      sale_quantity_def sale_amount_def split: option.splits)

section \<open>The menu loop keeps the array well formed\<close>

lemma process_sale_Inr_ledger:
  assumes "ledger_ok s" "heap_bounded (realloc_ok env)" "process_sale inp env s = Inr (r, s')"
  shows "ledger_ok s'"
proof (cases "rejected inp s")
  case True
  from process_sale_rejected [OF this, of env] assms(1,3) show ?thesis by auto
next
  case False
  from process_sale_accepted [OF this, of env]
  obtain pid v m x p where
    "process_sale inp env s =
       commit_sale env pid (sale_fuel s pid) v (sale_quantity s pid m x) (sale_amount s pid m x) p s"
    by blast
  with assms(3) have "commit_sale env pid (sale_fuel s pid) v (sale_quantity s pid m x)
      (sale_amount s pid m x) p s = Inr (r, s')" by simp
  from commit_sale_Inr(2) [OF this] assms(1,2) show ?thesis
    by (metis ledger_ok_sale_deducted record_transaction_Inr(1))
qed

lemma process_sale_not_out_of_bounds:
  assumes "ledger_ok s" "heap_bounded (realloc_ok env)"
  shows "process_sale inp env s \<noteq> Inl LedgerOutOfBounds"
proof (cases "rejected inp s")
  case True
  from process_sale_rejected [OF this, of env] show ?thesis by auto
next
  case False
  from process_sale_accepted [OF this, of env]
  obtain pid v m x p where e:
    "process_sale inp env s =
       commit_sale env pid (sale_fuel s pid) v (sale_quantity s pid m x) (sale_amount s pid m x) p s"
    by blast
  show ?thesis
  proof
    assume "process_sale inp env s = Inl LedgerOutOfBounds"
    with e have "commit_sale env pid (sale_fuel s pid) v (sale_quantity s pid m x)
      (sale_amount s pid m x) p s = Inl LedgerOutOfBounds" by simp
    from commit_sale_Inl [OF this] assms show False
      by (metis ledger_ok_sale_deducted record_transaction_not_out_of_bounds)
  qed
qed

lemma ledger_ok_add_supply: "ledger_ok (add_supply in_f in_amt s) = ledger_ok s"
  by (simp add: add_supply_def ledger_ok_def split: option.split)

lemma ledger_ok_change_pump_status: "ledger_ok (change_pump_status in_pid in_s s) = ledger_ok s"
  by (simp add: change_pump_status_def ledger_ok_def Let_def split: option.split)

lemma ledger_ok_generate_daily_report: "ledger_ok (generate_daily_report s) = ledger_ok s"
  by (simp add: generate_daily_report_def ledger_ok_def)

lemma menu_step_ledger:
  assumes "ledger_ok s" "heaps_bounded [c]"
  shows "menu_step c s \<noteq> Inl LedgerOutOfBounds"
    and "menu_step c s = Inr s' \<Longrightarrow> ledger_ok s'"
proof -
  show "menu_step c s \<noteq> Inl LedgerOutOfBounds"
  proof (cases c)
    case (Process_sale inp env)
    with assms(2) have "heap_bounded (realloc_ok env)" by (simp add: heaps_bounded_def)
    from process_sale_not_out_of_bounds [OF assms(1) this, of inp] Process_sale
    show ?thesis
      by (cases "process_sale inp env s") (auto simp add: menu_step_def)
  qed (simp_all add: menu_step_def)
  show "ledger_ok s'" if "menu_step c s = Inr s'"
  proof (cases c)
    case (Process_sale inp env)
    with assms(2) have hb: "heap_bounded (realloc_ok env)" by (simp add: heaps_bounded_def)
    from that Process_sale obtain r where "process_sale inp env s = Inr (r, s')"
      by (cases "process_sale inp env s") (auto simp add: menu_step_def)
    from process_sale_Inr_ledger [OF assms(1) hb this] show ?thesis .
  next
    case (Add_supply in_f in_amt)
    with that assms(1) show ?thesis by (auto simp add: menu_step_def ledger_ok_add_supply)
  next
    case (Change_pump_status in_pid in_s)
    with that assms(1) show ?thesis by (auto simp add: menu_step_def ledger_ok_change_pump_status)
  next
    case Generate_daily_report
    with that assms(1) show ?thesis by (auto simp add: menu_step_def ledger_ok_generate_daily_report)
  next
    case Print_only
    with that assms(1) show ?thesis by (auto simp add: menu_step_def)
  qed
qed

lemma menu_loop_ledger:
  assumes "ledger_ok s" "heaps_bounded cs"
  shows "menu_loop cs s \<noteq> Inl LedgerOutOfBounds \<and> (\<forall>s'. menu_loop cs s = Inr s' \<longrightarrow> ledger_ok s')"
  using assms
proof (induction cs arbitrary: s)
  case Nil
  then show ?case by simp
next
  case (Cons c cs)
  from Cons.prems(2) have h1: "heaps_bounded [c]" and h2: "heaps_bounded cs"
    by (simp_all add: heaps_bounded_def)
  show ?case
  proof (cases "menu_step c s")
    case (Inl e)
    with menu_step_ledger(1) [OF Cons.prems(1) h1] show ?thesis by simp
  next
    case (Inr s1)
    from menu_step_ledger(2) [OF Cons.prems(1) h1 Inr] have "ledger_ok s1" .
    from Cons.IH [OF this h2] Inr show ?thesis by simp
  qed
qed

section \<open>The first sale\<close>

lemma record_transaction_room:
  "tx_count s < tx_capacity s \<Longrightarrow>
     record_transaction ok lt tx s = record_transaction no_memory lt tx s"
  by (simp add: record_transaction_def ensure_tx_capacity_room)

lemma initial_state_fuels:
  "fuels (initial_state :: real state) FUEL_PETROL =
     \<lparr>type = FUEL_PETROL, price = 102.5, opening_stock = 50000, current_stock = 50000,
      closing_stock = 50000\<rparr>"
  by (simp add: initial_state_def PRICE_PETROL_def OPEN_PETROL_def)

lemma initial_state_pumps:
  "i < 6 \<Longrightarrow> pumps (initial_state :: 'a::{zero,numeral,inverse,power} state) i = init_pump i"
  by (simp add: initial_state_def)

lemma sale_of_100_on_initial_state:
  assumes pid: "pid = 1 \<or> pid = 2"
    and inp: "in_pump_id inp = Some pid" "in_vchoice inp = Some v" "in_mode inp = Some 0"
      "in_value inp = Some 100" "in_paychoice inp = Some p"
    and choices: "0 \<le> v" "v \<le> 2" "0 \<le> p" "p \<le> 2"
    and hour: "hour_valid (tx_localtime env)"
  shows "initialize_system True static_state = Inr (initial_state :: real state) \<and>
    price (fuels (initial_state :: real state) FUEL_PETROL) = 102.50 \<and>
    current_stock (fuels (initial_state :: real state) FUEL_PETROL) = 50000 \<and>
    (\<exists>tx s'. process_sale inp env (initial_state :: real state) = Inr (Receipt tx, s') \<and>
       quantity tx = 100 \<and> amount tx = 10250.00 \<and>
       current_stock (fuels s' FUEL_PETROL) = 49900.0 \<and>
       transactions_count (pumps s' (nat (pid - 1))) = 1 \<and>
       tx_count s' = 1 \<and> transactions s' ! 0 = tx)"
proof -
  let ?s = "initial_state :: real state"
  have idx: "pump_index_by_id ?s pid = pid - 1"
    using pid by (auto simp add: pump_index_by_id_initial)
  have pump: "pumps ?s (nat (pid - 1)) = init_pump (nat (pid - 1))"
    using pid by (auto simp add: initial_state_pumps)
  have fuel: "sale_fuel ?s pid = FUEL_PETROL"
    using pid by (auto simp add: sale_fuel_def idx pump init_pump_def)
  have qty: "sale_quantity ?s pid 0 100 = 100" and amt: "sale_amount ?s pid 0 100 = 10250"
    by (simp_all add: sale_quantity_def sale_amount_def fuel initial_state_fuels)
  have "\<not> rejected inp ?s"
    using pid choices
    by (auto simp add: rejected_def inp idx pump fuel qty init_pump_def initial_state_fuels)
  from process_sale_accepted [OF this, of env]
  have ps: "process_sale inp env ?s = commit_sale env pid FUEL_PETROL v 100 10250 p ?s"
    by (simp add: inp fuel qty amt)
  let ?tx = "sale_record env pid FUEL_PETROL v 100 10250 p ?s"
  let ?d = "sale_deducted FUEL_PETROL 100 ?s"
  have okd: "ledger_ok ?d"
    by (simp add: ledger_ok_sale_deducted ledger_ok_initial_state)
  have room: "tx_count ?d < tx_capacity ?d"
    by (simp add: sale_deducted_def initial_state_counts)
  have e: "ensure_tx_capacity no_memory ?d \<noteq> Inl CapacityExpansionFailed"
    by (simp add: ensure_tx_capacity_room room)
  from record_transaction_result [OF okd heap_bounded_no_memory e hour, of ?tx]
  obtain s' where r: "record_transaction no_memory (tx_localtime env) ?tx ?d = Inr s'"
    and c: "tx_count s' = tx_count ?d + 1" "transactions s' ! tx_count ?d = ?tx"
      "fuels s' = fuels ?d" "pumps s' = pumps (update_pump_stats ?tx ?d)"
    by blast
  have "record_transaction (realloc_ok env) (tx_localtime env) ?tx ?d = Inr s'"
    using r by (simp add: record_transaction_room [OF room, of "realloc_ok env"])
  then have "process_sale inp env ?s = Inr (Receipt ?tx, s')"
    by (simp add: ps commit_sale_eq)
  moreover have "quantity ?tx = 100" "amount ?tx = 10250"
    by (simp_all add: sale_record_def)
  moreover have "current_stock (fuels s' FUEL_PETROL) = 49900"
    by (simp add: c sale_deducted_def initial_state_fuels)
  moreover have "transactions_count (pumps s' (nat (pid - 1))) = 1"
  proof -
    have "pump_index_by_id ?d (tx_pump_id ?tx) = pid - 1"
      using idx by (simp add: pump_index_by_id_def sale_deducted_def sale_record_def)
    moreover have "pumps ?d = pumps ?s" by (simp add: sale_deducted_def)
    ultimately show ?thesis
      using pid by (auto simp add: c pumps_update_pump_stats_credited pump_credited_def sint32_def pump
          init_pump_def)
  qed
  moreover have "tx_count s' = 1" "transactions s' ! 0 = ?tx"
    using c by (simp_all add: sale_deducted_def initial_state_counts)
  ultimately show ?thesis
    by (simp add: initialize_system_eq initial_state_fuels)
qed

lemma hour_valid_five_pm: "hour_valid (Some five_pm)"
  by (simp add: hour_valid_def five_pm_def)

lemma rejected_too_much: "rejected too_much initial_state"
proof -
  have "sale_fuel (initial_state :: real state) 1 = FUEL_PETROL"
    by (simp add: sale_fuel_def pump_index_by_id_initial initial_state_pumps init_pump_def)
  then show ?thesis
    by (simp add: rejected_def too_much_def sale_quantity_def initial_state_fuels)
qed

section \<open>Claims about sales\<close>

text \<open>
  C8. \<^verbatim>\<open>initialize_system\<close> leaves petrol at 102.50 per litre with a current stock
  of 50000. From that state a sale in quantity mode of 100 units on a petrol pump
  (pump 1 or 2), with a vehicle type and a payment mode among the choices, returns
  a receipt whose amount is exactly 10250.00, leaves the petrol stock at exactly
  49900.0 and the pump's \<open>transactions_count\<close> at 1.

  The statement is at the type \<open>real\<close>. The values involved (102.5, 100, 50000 and
  the results 10250 and 49900) are integers or half-integers far below \<open>2 ^ 53\<close>, so
  the product and the difference are representable and a binary64 multiplication or
  subtraction returns them without rounding.
\<close>

theorem first_petrol_sale:
  assumes "pid = 1 \<or> pid = 2"
    and "in_pump_id inp = Some pid" "in_vchoice inp = Some v" "in_mode inp = Some 0"
      "in_value inp = Some 100" "in_paychoice inp = Some p"
    and "0 \<le> v" "v \<le> 2" "0 \<le> p" "p \<le> 2"
    and "hour_valid (tx_localtime env)"
  shows "initialize_system True static_state = Inr (initial_state :: real state) \<and>
    price (fuels (initial_state :: real state) FUEL_PETROL) = 102.50 \<and>
    current_stock (fuels (initial_state :: real state) FUEL_PETROL) = 50000 \<and>
    (\<exists>tx s'. process_sale inp env (initial_state :: real state) = Inr (Receipt tx, s') \<and>
       quantity tx = 100 \<and> amount tx = 10250.00 \<and>
       current_stock (fuels s' FUEL_PETROL) = 49900.0 \<and>
       transactions_count (pumps s' (nat (pid - 1))) = 1 \<and>
       tx_count s' = 1 \<and> transactions s' ! 0 = tx)"
  using assms by (rule sale_of_100_on_initial_state)

theorem first_petrol_sale_witness:
  "\<exists>tx s'. process_sale hundred_litres at_five_pm initial_state = Inr (Receipt tx, s') \<and>
       amount tx = 10250 \<and> current_stock (fuels s' FUEL_PETROL) = 49900 \<and>
       transactions_count (pumps s' 0) = 1"
proof -
  have "hour_valid (tx_localtime at_five_pm)"
    by (simp add: at_five_pm_def hour_valid_five_pm)
  from first_petrol_sale [of 1 hundred_litres 1 0 at_five_pm, OF _ _ _ _ _ _ _ _ _ _ this]
  show ?thesis
    by (simp add: hundred_litres_def) blast
qed

text \<open>
  C3. A sale attempt that meets one of the recoverable failures (\<open>rejected\<close>: the list
  of the specification) returns with a message, not a receipt, and with the state it
  was given; and every call of \<^verbatim>\<open>process_sale\<close> that returns without a receipt
  was such an attempt and returns the state unchanged, all its fields at once: the
  ledger and its count, the id counter, the stocks, the pumps and every accumulator.
\<close>

theorem rejected_sale_changes_nothing:
  fixes s :: "'d::{zero,plus,minus,times,inverse,ord} state"
  shows "(rejected inp s \<longrightarrow>
            (\<exists>r. process_sale inp env s = Inr (r, s) \<and> (\<forall>tx. r \<noteq> Receipt tx))) \<and>
         (\<forall>r s'. process_sale inp env s = Inr (r, s') \<and> (\<forall>tx. r \<noteq> Receipt tx) \<longrightarrow>
            rejected inp s \<and> s' = s)"
proof (intro conjI allI impI)
  assume "rejected inp s"
  then show "\<exists>r. process_sale inp env s = Inr (r, s) \<and> (\<forall>tx. r \<noteq> Receipt tx)"
    by (rule process_sale_rejected)
next
  fix r s'
  assume a: "process_sale inp env s = Inr (r, s') \<and> (\<forall>tx. r \<noteq> Receipt tx)"
  show "rejected inp s"
  proof (rule ccontr)
    assume "\<not> rejected inp s"
    from process_sale_accepted [OF this, of env]
    obtain pid v m x p where
      "process_sale inp env s =
         commit_sale env pid (sale_fuel s pid) v (sale_quantity s pid m x) (sale_amount s pid m x) p s"
      by blast
    with a have "commit_sale env pid (sale_fuel s pid) v (sale_quantity s pid m x)
        (sale_amount s pid m x) p s = Inr (r, s')" by simp
    from commit_sale_Inr(1) [OF this] a show False by simp
  qed
  from process_sale_rejected [OF this, of env] a show "s' = s" by auto
qed

theorem rejected_sale_changes_nothing_witness:
  "rejected too_much initial_state \<and>
   (\<exists>r. process_sale too_much at_five_pm initial_state = Inr (r, initial_state) \<and>
        (\<forall>tx. r \<noteq> Receipt tx))"
  using rejected_sale_changes_nothing [of too_much initial_state at_five_pm] rejected_too_much
  by simp


lemma initialize_system_no_memory:
  "initialize_system False s = Inl InitialAllocationFailed"
  by (simp add: initialize_system_def Let_def)

lemma heaps_bounded_two_attempts: "heaps_bounded two_attempts"
  by (simp add: heaps_bounded_def two_attempts_def at_five_pm_def heap_bounded_some_memory)

lemma main_two_attempts:
  "\<exists>s. main True two_attempts = Inr s \<and> tx_count s = 1"
proof -
  from process_sale_rejected [OF rejected_too_much, of at_five_pm]
  obtain r where r: "process_sale too_much at_five_pm initial_state = Inr (r, initial_state)"
    by blast
  have "hour_valid (tx_localtime at_five_pm)"
    by (simp add: at_five_pm_def hour_valid_five_pm)
  from sale_of_100_on_initial_state [of 1 hundred_litres 1 0 at_five_pm, OF _ _ _ _ _ _ _ _ _ _ this]
  obtain tx s' where "process_sale hundred_litres at_five_pm initial_state = Inr (Receipt tx, s')"
    "tx_count s' = 1"
    by (simp add: hundred_litres_def) blast
  with r show ?thesis
    by (simp add: main_def initialize_system_eq two_attempts_def menu_step_def)
qed

section \<open>Bounds of the transaction array\<close>

text \<open>
  C10. In every state that \<^verbatim>\<open>main\<close> reaches after \<^verbatim>\<open>initialize_system\<close>, whatever
  the commands served, \<open>tx_count \<le> tx_capacity\<close> and \<open>tx_capacity > 0\<close> hold and the
  block has \<open>tx_capacity\<close> slots; from such a state \<^verbatim>\<open>ensure_tx_capacity\<close>, when it
  returns, leaves \<open>tx_count < tx_capacity\<close>, so the store that follows is inside the
  block; and no run ends in a write outside the block. The allocator is assumed
  never to return a block of \<open>2 ^ 63\<close> bytes or more, which keeps the \<^verbatim>\<open>size_t\<close>
  arithmetic of \<^verbatim>\<open>ensure_tx_capacity\<close> from wrapping around.
\<close>

theorem ledger_store_within_capacity:
  fixes cs :: "'d::{zero,plus,minus,times,inverse,ord,numeral,power} command list"
  assumes "heaps_bounded cs"
  shows "main calloc_ok cs \<noteq> Inl LedgerOutOfBounds \<and>
    (\<forall>s. main calloc_ok cs = Inr s \<longrightarrow>
       tx_count s \<le> tx_capacity s \<and> 0 < tx_capacity s \<and>
       length (transactions s) = tx_capacity s \<and>
       (\<forall>ok s1 tx. heap_bounded ok \<and> ensure_tx_capacity ok s = Inr s1 \<longrightarrow>
          tx_count s1 < tx_capacity s1 \<and> length (transactions s1) = tx_capacity s1 \<and>
          store_transaction tx s1 \<noteq> Inl LedgerOutOfBounds))"
proof (cases calloc_ok)
  case False
  then show ?thesis by (simp add: main_def initialize_system_no_memory)
next
  case True
  then have m: "main calloc_ok cs = menu_loop cs initial_state"
    by (simp add: main_def initialize_system_eq)
  from menu_loop_ledger [OF ledger_ok_initial_state assms]
  have no: "menu_loop cs (initial_state :: 'd state) \<noteq> Inl LedgerOutOfBounds"
    and inv: "\<And>s. menu_loop cs (initial_state :: 'd state) = Inr s \<Longrightarrow> ledger_ok s"
    by blast+
  have "tx_count s \<le> tx_capacity s \<and> 0 < tx_capacity s \<and>
       length (transactions s) = tx_capacity s \<and>
       (\<forall>ok s1 tx. heap_bounded ok \<and> ensure_tx_capacity ok s = Inr s1 \<longrightarrow>
          tx_count s1 < tx_capacity s1 \<and> length (transactions s1) = tx_capacity s1 \<and>
          store_transaction tx s1 \<noteq> Inl LedgerOutOfBounds)"
    if "menu_loop cs (initial_state :: 'd state) = Inr s" for s
  proof -
    from inv [OF that] have ok: "ledger_ok s" .
    have "tx_count s1 < tx_capacity s1 \<and> length (transactions s1) = tx_capacity s1 \<and>
          store_transaction tx s1 \<noteq> Inl LedgerOutOfBounds"
      if h: "heap_bounded ok" and e: "ensure_tx_capacity ok s = Inr s1" for ok s1 and tx :: "'d Transaction"
    proof -
      from ensure_tx_capacity_Inr [OF ok h e]
      have "ledger_ok s1" "tx_count s1 < tx_capacity s1" by simp_all
      then show ?thesis by (simp add: ledger_ok_def store_transaction_def)
    qed
    then have "\<forall>ok s1 tx. heap_bounded ok \<and> ensure_tx_capacity ok s = Inr s1 \<longrightarrow>
          tx_count s1 < tx_capacity s1 \<and> length (transactions s1) = tx_capacity s1 \<and>
          store_transaction (tx :: 'd Transaction) s1 \<noteq> Inl LedgerOutOfBounds"
      by blast
    moreover from ok have "tx_count s \<le> tx_capacity s" "0 < tx_capacity s"
      "length (transactions s) = tx_capacity s"
      by (simp_all add: ledger_ok_def)
    ultimately show ?thesis by blast
  qed
  with no m show ?thesis by simp
qed

theorem ledger_store_within_capacity_witness:
  "heaps_bounded two_attempts \<and> main True two_attempts \<noteq> Inl LedgerOutOfBounds \<and>
   (\<exists>s. main True two_attempts = Inr s \<and> tx_count s = 1 \<and> tx_count s \<le> tx_capacity s \<and>
        length (transactions s) = tx_capacity s)"
proof -
  from main_two_attempts obtain s where s: "main True two_attempts = Inr s" "tx_count s = 1"
    by blast
  from ledger_store_within_capacity [OF heaps_bounded_two_attempts, of True] s
  have "main True two_attempts \<noteq> Inl LedgerOutOfBounds" "tx_count s \<le> tx_capacity s"
    "length (transactions s) = tx_capacity s"
    by simp_all
  with s heaps_bounded_two_attempts show ?thesis by blast
qed


section \<open>Growth of the ledger\<close>

lemma record_all_preserves:
  fixes xs :: "((nat \<Rightarrow> nat \<Rightarrow> bool) \<times> tm option \<times> 'd::{zero,plus} Transaction) list"
  assumes "ledger_ok s" "appends_bounded xs" "record_all xs s = Inr s'"
  shows "ledger_ok s' \<and> tx_count s' = tx_count s + length xs \<and>
     take (tx_count s') (transactions s') =
       take (tx_count s) (transactions s) @ map (\<lambda>x. snd (snd x)) xs"
  using assms
proof (induction xs arbitrary: s)
  case Nil
  then show ?case by simp
next
  case (Cons x xs)
  obtain ok lt tx where x: "x = (ok, lt, tx)" by (cases x)
  from Cons.prems(2) x have hb: "heap_bounded ok" and rest: "appends_bounded xs"
    by (simp_all add: appends_bounded_def)
  from Cons.prems(3) x obtain s1 where s1: "record_transaction ok lt tx s = Inr s1"
    and r: "record_all xs s1 = Inr s'"
    by (cases "record_transaction ok lt tx s") simp_all
  note f = record_transaction_Inr [OF Cons.prems(1) hb s1]
  from f(1) f(2) have "tx_count s < length (transactions s1)"
    by (simp add: ledger_ok_def)
  then have t: "take (tx_count s1) (transactions s1) = take (tx_count s) (transactions s) @ [tx]"
    using f(2,5,6) by (simp add: take_Suc_conv_app_nth)
  from Cons.IH [OF f(1) rest r]
  have i: "ledger_ok s'" "tx_count s' = tx_count s1 + length xs"
    "take (tx_count s') (transactions s') =
       take (tx_count s1) (transactions s1) @ map (\<lambda>x. snd (snd x)) xs"
    by blast+
  have "take (tx_count s') (transactions s') =
      (take (tx_count s) (transactions s) @ [tx]) @ map (\<lambda>x. snd (snd x)) xs"
    by (simp only: i(3) t)
  moreover have "tx_count s' = tx_count s + length (x # xs)"
    using i(2) f(2) by simp
  ultimately show ?case using i(1) x by simp
qed

lemma record_all_succeeds:
  fixes xs :: "((nat \<Rightarrow> nat \<Rightarrow> bool) \<times> tm option \<times> 'd::{zero,plus} Transaction) list"
  assumes "ledger_ok s" "appends_bounded xs" "appends_served xs"
    and "(tx_count s + length xs) * (2 * sizeof_Transaction) < 2 ^ 63"
  shows "\<exists>s'. record_all xs s = Inr s'"
  using assms
proof (induction xs arbitrary: s)
  case Nil
  then show ?case by simp
next
  case (Cons x xs)
  obtain ok lt tx where x: "x = (ok, lt, tx)" by (cases x)
  from Cons.prems(2) x have hb: "heap_bounded ok" and rest: "appends_bounded xs"
    by (simp_all add: appends_bounded_def)
  from Cons.prems(3) x have gen: "\<And>n. n < 2 ^ 63 \<Longrightarrow> ok 0 n" and hv: "hour_valid lt"
    and rest': "appends_served xs"
    by (simp_all add: appends_served_def)
  have e: "ensure_tx_capacity ok s \<noteq> Inl CapacityExpansionFailed"
  proof (cases "tx_count s < tx_capacity s")
    case True
    then show ?thesis by (simp add: ensure_tx_capacity_room)
  next
    case False
    with Cons.prems(1) have "tx_capacity s = tx_count s" by (simp add: ledger_ok_def)
    with Cons.prems(4) have "tx_capacity s * 2 * sizeof_Transaction < 2 ^ 63"
      by (simp add: sizeof_Transaction_def)
    from gen [OF this] show ?thesis
      by (simp add: ensure_tx_capacity_eq [OF Cons.prems(1)])
  qed
  from record_transaction_result [OF Cons.prems(1) hb e hv, of tx]
  obtain s1 where s1: "record_transaction ok lt tx s = Inr s1" and ok1: "ledger_ok s1"
    and c1: "tx_count s1 = tx_count s + 1"
    by blast
  from Cons.prems(4) c1 have "(tx_count s1 + length xs) * (2 * sizeof_Transaction) < 2 ^ 63"
    by simp
  from Cons.IH [OF ok1 rest rest' this] s1 x show ?case by simp
qed

lemma ensure_tx_capacity_full:
  assumes "ledger_ok s" "tx_count s = tx_capacity s"
  shows "ensure_tx_capacity ok s =
    (if ok 0 (tx_capacity s * 2 * sizeof_Transaction) then Inr (grown (tx_capacity s * 2) s)
     else if ok 1 ((tx_capacity s + 50) * sizeof_Transaction) then Inr (grown (tx_capacity s + 50) s)
     else Inl CapacityExpansionFailed)"
  using assms(2) by (simp add: ensure_tx_capacity_eq [OF assms(1)])

lemma ledger_ok_full_ledger: "ledger_ok full_ledger"
  by (simp add: ledger_ok_def full_ledger_def sizeof_Transaction_def)

lemma heap_bounded_plenty_of_memory: "heap_bounded plenty_of_memory"
  by (simp add: heap_bounded_def plenty_of_memory_def)

lemma heap_bounded_fallback_only: "heap_bounded fallback_only"
  by (simp add: heap_bounded_def fallback_only_def)

lemma many_appends_ok:
  "appends_bounded many_appends" "appends_served many_appends" "length many_appends = 501"
  by (simp_all add: appends_bounded_def appends_served_def many_appends_def
      heap_bounded_plenty_of_memory plenty_of_memory_def hour_valid_def)

text \<open>
  C5. \<^verbatim>\<open>initialize_system\<close> gives the ledger 50 slots. \<^verbatim>\<open>ensure_tx_capacity\<close>
  leaves a ledger with a free slot alone; on a full one it doubles the capacity when
  the first \<^verbatim>\<open>realloc\<close> succeeds, adds 50 slots when only the second succeeds, and
  ends the process when both fail; the stored records keep their place and content.
  After any series of appends that returns, the count has grown by their number and
  the used part of the array is what it was followed by the appended records in
  order; and the series does return when each doubling below \<open>2 ^ 63\<close> bytes is
  granted and twice the final count of records stays below that size. The witness
  appends 501 records to the initial ledger of 50 slots.
\<close>

theorem ledger_growth_keeps_records:
  fixes xs :: "((nat \<Rightarrow> nat \<Rightarrow> bool) \<times> tm option \<times> 'd::{zero,plus} Transaction) list"
  assumes "ledger_ok s" and "appends_bounded xs"
  shows
    "initialize_system True static_state = Inr (initial_state :: real state) \<and>
     tx_capacity (initial_state :: real state) = 50 \<and>
     tx_count (initial_state :: real state) = 0 \<and>
     (tx_count s < tx_capacity s \<longrightarrow> ensure_tx_capacity ok s = Inr s) \<and>
     (tx_count s = tx_capacity s \<longrightarrow>
        (ok 0 (tx_capacity s * 2 * sizeof_Transaction) \<longrightarrow>
           (\<exists>s1. ensure_tx_capacity ok s = Inr s1 \<and> tx_capacity s1 = tx_capacity s * 2 \<and>
              take (tx_count s) (transactions s1) = take (tx_count s) (transactions s))) \<and>
        (\<not> ok 0 (tx_capacity s * 2 * sizeof_Transaction) \<and>
         ok 1 ((tx_capacity s + 50) * sizeof_Transaction) \<longrightarrow>
           (\<exists>s1. ensure_tx_capacity ok s = Inr s1 \<and> tx_capacity s1 = tx_capacity s + 50 \<and>
              take (tx_count s) (transactions s1) = take (tx_count s) (transactions s))) \<and>
        (\<not> ok 0 (tx_capacity s * 2 * sizeof_Transaction) \<and>
         \<not> ok 1 ((tx_capacity s + 50) * sizeof_Transaction) \<longrightarrow>
           ensure_tx_capacity ok s = Inl CapacityExpansionFailed)) \<and>
     (\<forall>s'. record_all xs s = Inr s' \<longrightarrow>
        tx_count s' = tx_count s + length xs \<and>
        take (tx_count s') (transactions s') =
          take (tx_count s) (transactions s) @ map (\<lambda>x. snd (snd x)) xs) \<and>
     (appends_served xs \<and> (tx_count s + length xs) * (2 * sizeof_Transaction) < 2 ^ 63 \<longrightarrow>
        (\<exists>s'. record_all xs s = Inr s'))"
proof -
  have a: "initialize_system True static_state = Inr (initial_state :: real state) \<and>
     tx_capacity (initial_state :: real state) = 50 \<and>
     tx_count (initial_state :: real state) = 0"
    by (simp add: initial_state_counts initialize_system_eq)
  have b: "tx_count s < tx_capacity s \<longrightarrow> ensure_tx_capacity ok s = Inr s"
    by (simp add: ensure_tx_capacity_room)
  have len: "length (transactions s) = tx_capacity s"
    using assms(1) by (simp add: ledger_ok_def)
  have c: "tx_count s = tx_capacity s \<longrightarrow>
        (ok 0 (tx_capacity s * 2 * sizeof_Transaction) \<longrightarrow>
           (\<exists>s1. ensure_tx_capacity ok s = Inr s1 \<and> tx_capacity s1 = tx_capacity s * 2 \<and>
              take (tx_count s) (transactions s1) = take (tx_count s) (transactions s))) \<and>
        (\<not> ok 0 (tx_capacity s * 2 * sizeof_Transaction) \<and>
         ok 1 ((tx_capacity s + 50) * sizeof_Transaction) \<longrightarrow>
           (\<exists>s1. ensure_tx_capacity ok s = Inr s1 \<and> tx_capacity s1 = tx_capacity s + 50 \<and>
              take (tx_count s) (transactions s1) = take (tx_count s) (transactions s))) \<and>
        (\<not> ok 0 (tx_capacity s * 2 * sizeof_Transaction) \<and>
         \<not> ok 1 ((tx_capacity s + 50) * sizeof_Transaction) \<longrightarrow>
           ensure_tx_capacity ok s = Inl CapacityExpansionFailed)"
    using len by (simp add: ensure_tx_capacity_full [OF assms(1)] grown_def)
  have d: "\<forall>s'. record_all xs s = Inr s' \<longrightarrow>
        tx_count s' = tx_count s + length xs \<and>
        take (tx_count s') (transactions s') =
          take (tx_count s) (transactions s) @ map (\<lambda>x. snd (snd x)) xs"
    using record_all_preserves [OF assms] by blast
  have e: "appends_served xs \<and> (tx_count s + length xs) * (2 * sizeof_Transaction) < 2 ^ 63 \<longrightarrow>
        (\<exists>s'. record_all xs s = Inr s')"
    using record_all_succeeds [OF assms] by blast
  from a b c d e show ?thesis by blast
qed


theorem ledger_growth_keeps_records_witness:
  "(\<exists>s1. ensure_tx_capacity some_memory full_ledger = Inr s1 \<and> tx_capacity s1 = 200) \<and>
   (\<exists>s1. ensure_tx_capacity fallback_only full_ledger = Inr s1 \<and> tx_capacity s1 = 150) \<and>
   ensure_tx_capacity no_memory full_ledger = Inl CapacityExpansionFailed \<and>
   (\<exists>s'. record_all many_appends initial_state = Inr s' \<and> tx_count s' = 501 \<and>
      take (tx_count s') (transactions s') = map (\<lambda>i. stray_sale\<lparr>timestamp := int i\<rparr>) [0..<501])"
proof -
  have f: "tx_count full_ledger = tx_capacity full_ledger" "tx_capacity full_ledger = 100"
    by (simp_all add: full_ledger_def)
  from ledger_growth_keeps_records [OF ledger_ok_full_ledger, of "[]" some_memory]
  have 1: "\<exists>s1. ensure_tx_capacity some_memory full_ledger = Inr s1 \<and> tx_capacity s1 = 200"
    by (simp add: f appends_bounded_def some_memory_def sizeof_Transaction_def) blast
  from ledger_growth_keeps_records [OF ledger_ok_full_ledger, of "[]" fallback_only]
  have 2: "\<exists>s1. ensure_tx_capacity fallback_only full_ledger = Inr s1 \<and> tx_capacity s1 = 150"
    by (simp add: f appends_bounded_def fallback_only_def sizeof_Transaction_def) blast
  from ledger_growth_keeps_records [OF ledger_ok_full_ledger, of "[]" no_memory]
  have 3: "ensure_tx_capacity no_memory full_ledger = Inl CapacityExpansionFailed"
    by (simp add: f appends_bounded_def no_memory_def)
  have m: "map (\<lambda>x. snd (snd x)) many_appends = map (\<lambda>i. stray_sale\<lparr>timestamp := int i\<rparr>) [0..<501]"
    by (simp add: many_appends_def)
  from ledger_growth_keeps_records [OF ledger_ok_initial_state many_appends_ok(1), of no_memory]
  have 4: "\<exists>s'. record_all many_appends initial_state = Inr s' \<and> tx_count s' = 501 \<and>
      take (tx_count s') (transactions s') = map (\<lambda>i. stray_sale\<lparr>timestamp := int i\<rparr>) [0..<501]"
    by (simp add: many_appends_ok initial_state_counts sizeof_Transaction_def m) blast
  from 1 2 3 4 show ?thesis by blast
qed


section \<open>Decimal conversions\<close>

lemma digit_value_digit: "d < 10 \<Longrightarrow> digit_value (digit d) = d"
proof -
  assume "d < 10"
  then have "d = 0 \<or> d = 1 \<or> d = 2 \<or> d = 3 \<or> d = 4 \<or> d = 5 \<or> d = 6 \<or> d = 7 \<or> d = 8 \<or> d = 9"
    by presburger
  then show ?thesis
    by (elim disjE) (simp_all add: digit_value_def digit_def)
qed

lemma decimal_value_snoc: "decimal_value (ds @ [c]) = 10 * decimal_value ds + digit_value c"
  by (simp add: decimal_value_def)

lemma decimal_value_dec: "decimal_value (dec n) = n"
proof (induction n rule: dec.induct)
  case (1 n)
  show ?case
  proof (cases "n < 10")
    case True
    then show ?thesis
      by (simp add: dec.simps [of n] decimal_value_def digit_value_digit)
  next
    case False
    with "1.IH" have "decimal_value (dec (n div 10)) = n div 10" by simp
    with False show ?thesis
      by (simp add: dec.simps [of n] decimal_value_snoc digit_value_digit)
  qed
qed

lemma decimal_value_zeros: "decimal_value (replicate k (CHR ''0'') @ ds) = decimal_value ds"
proof -
  have "foldl (\<lambda>a c. 10 * a + digit_value c) 0 (replicate k (CHR ''0'')) = 0"
    by (induction k) (simp_all add: digit_value_def)
  then show ?thesis by (simp add: decimal_value_def)
qed

lemma decimal_value_fmt_u: "decimal_value (fmt_u w n) = n"
  by (simp add: fmt_u_def pad0_def decimal_value_zeros decimal_value_dec)

lemma decimal_value_fmt_d: "0 \<le> v \<Longrightarrow> decimal_value (fmt_d w v) = nat v"
  by (simp add: fmt_d_def pad0_def decimal_value_zeros decimal_value_dec)

lemma length_dec_le: "n < 10 ^ k \<Longrightarrow> 0 < k \<Longrightarrow> length (dec n) \<le> k"
proof (induction n arbitrary: k rule: dec.induct)
  case (1 n)
  show ?case
  proof (cases "n < 10")
    case True
    with "1.prems" show ?thesis by (simp add: dec.simps [of n])
  next
    case False
    from "1.prems" obtain k' where k: "k = Suc k'" by (cases k) simp_all
    with False "1.prems" have "0 < k'" by (cases k') simp_all
    from "1.prems" k have "n div 10 < 10 ^ k'"
      by (simp add: less_mult_imp_div_less mult.commute)
    from "1.IH" [OF False this \<open>0 < k'\<close>] False k show ?thesis
      by (simp add: dec.simps [of n])
  qed
qed

lemma length_pad0: "length (pad0 w ds) = max w (length ds)"
  by (simp add: pad0_def)

lemma length_fmt_u: "n < 10 ^ w \<Longrightarrow> 0 < w \<Longrightarrow> length (fmt_u w n) = w"
  using length_dec_le [of n w] by (simp add: fmt_u_def length_pad0)

lemma length_fmt_d_2: "0 \<le> v \<Longrightarrow> v < 100 \<Longrightarrow> length (fmt_d 2 v) = 2"
  using length_dec_le [of "nat v" 2] by (simp add: fmt_d_def length_pad0)

lemma length_fmt_u_5: "n < 10 ^ 18 \<Longrightarrow> length (fmt_u 5 n) \<le> 18"
  using length_dec_le [of n 18] by (simp add: fmt_u_def length_pad0)

section \<open>Transaction identifiers\<close>

lemma snprintf_short: "length text \<le> 31 \<Longrightarrow> snprintf 32 text = text"
  by (simp add: snprintf_def)

lemma txn_id_text_None:
  assumes "n < 10 ^ 18"
  shows "txn_id_text None n = ''TXN'' @ ''0000'' @ ''00'' @ ''000'' @ fmt_u 5 n"
proof -
  from length_fmt_u_5 [OF assms] have "length (''TXN000000000'' @ fmt_u 5 n) \<le> 31" by simp
  then show ?thesis by (simp add: txn_id_text_def snprintf_short)
qed

lemma txn_id_text_Some:
  assumes "n < 10 ^ 18" "tm_valid (Some t)"
  shows "\<exists>y mo. length y = 4 \<and> length mo = 2 \<and> 0 < decimal_value mo \<and>
           (\<exists>r. length r = 4 \<and> txn_id_text (Some t) n = ''TXN'' @ y @ mo @ r @ fmt_u 5 n)"
proof -
  let ?y = "fmt_u 4 (nat ((tm_year t + 1900) mod 2 ^ 32) mod 10000)"
  let ?mo = "fmt_d 2 (tm_mon t + 1)"
  let ?r = "fmt_d 2 (tm_mday t) @ fmt_d 2 (tm_hour t)"
  from assms(2) have v: "0 \<le> tm_mon t" "tm_mon t \<le> 11" "1 \<le> tm_mday t" "tm_mday t \<le> 31"
      "0 \<le> tm_hour t" "tm_hour t \<le> 23"
    by (simp_all add: tm_valid_def)
  have ly: "length ?y = 4" by (rule length_fmt_u) simp_all
  have lm: "length ?mo = 2" using v by (intro length_fmt_d_2) simp_all
  have lr: "length ?r = 4" using v by (simp add: length_fmt_d_2)
  have dm: "0 < decimal_value ?mo" using v by (simp add: decimal_value_fmt_d)
  have "length (''TXN'' @ ?y @ ?mo @ ?r @ fmt_u 5 n) \<le> 31"
    using ly lm lr length_fmt_u_5 [OF assms(1)] by simp
  then have "snprintf 32 (''TXN'' @ ?y @ ?mo @ ?r @ fmt_u 5 n) = ''TXN'' @ ?y @ ?mo @ ?r @ fmt_u 5 n"
    by (rule snprintf_short)
  then have "txn_id_text (Some t) n = ''TXN'' @ ?y @ ?mo @ ?r @ fmt_u 5 n"
    by (simp add: txn_id_text_def)
  with ly lm lr dm show ?thesis by blast
qed

lemma fmt_u_inj: "fmt_u w m = fmt_u w n \<Longrightarrow> m = n"
  by (metis decimal_value_fmt_u)

lemma txn_id_text_inj:
  assumes "tm_valid lt1" "tm_valid lt2" "m < 10 ^ 18" "n < 10 ^ 18"
    and eq: "txn_id_text lt1 m = txn_id_text lt2 n"
  shows "m = n"
proof (cases lt1)
  case n1: None
  show ?thesis
  proof (cases lt2)
    case None
    with n1 eq assms(3,4) have "fmt_u 5 m = fmt_u 5 n"
      by (simp add: txn_id_text_None)
    then show ?thesis by (rule fmt_u_inj)
  next
    case (Some t)
    from txn_id_text_Some [OF assms(4)] assms(2) Some
    obtain y mo r where l: "length y = 4" "length mo = 2" "0 < decimal_value mo" "length r = 4"
      and t: "txn_id_text lt2 n = ''TXN'' @ y @ mo @ r @ fmt_u 5 n"
      by blast
    from eq n1 t assms(3) have "''0000'' @ ''00'' @ ''000'' @ fmt_u 5 m = y @ mo @ r @ fmt_u 5 n"
      by (simp add: txn_id_text_None)
    with l(1) have "''00'' @ ''000'' @ fmt_u 5 m = mo @ r @ fmt_u 5 n"
      by (subst (asm) append_eq_append_conv) simp_all
    with l(2) have "mo = ''00''"
      by (subst (asm) append_eq_append_conv) simp_all
    with l(3) show ?thesis by (simp add: decimal_value_def digit_value_def)
  qed
next
  case s1: (Some t1)
  from txn_id_text_Some [OF assms(3)] assms(1) s1
  obtain y mo r where l: "length y = 4" "length mo = 2" "0 < decimal_value mo" "length r = 4"
    and t: "txn_id_text lt1 m = ''TXN'' @ y @ mo @ r @ fmt_u 5 m"
    by blast
  show ?thesis
  proof (cases lt2)
    case None
    from eq None t assms(4) have "y @ mo @ r @ fmt_u 5 m = ''0000'' @ ''00'' @ ''000'' @ fmt_u 5 n"
      by (simp add: txn_id_text_None)
    with l(1) have "mo @ r @ fmt_u 5 m = ''00'' @ ''000'' @ fmt_u 5 n"
      by (subst (asm) append_eq_append_conv) simp_all
    with l(2) have "mo = ''00''"
      by (subst (asm) append_eq_append_conv) simp_all
    with l(3) show ?thesis by (simp add: decimal_value_def digit_value_def)
  next
    case (Some t2)
    from txn_id_text_Some [OF assms(4)] assms(2) Some
    obtain y' mo' r' where l': "length y' = 4" "length mo' = 2" "length r' = 4"
      and t': "txn_id_text lt2 n = ''TXN'' @ y' @ mo' @ r' @ fmt_u 5 n"
      by blast
    from eq t t' have "y @ mo @ r @ fmt_u 5 m = y' @ mo' @ r' @ fmt_u 5 n" by simp
    with l(1) l'(1) have "mo @ r @ fmt_u 5 m = mo' @ r' @ fmt_u 5 n"
      by (subst (asm) append_eq_append_conv) simp_all
    with l(2) l'(2) have "r @ fmt_u 5 m = r' @ fmt_u 5 n"
      by (subst (asm) append_eq_append_conv) simp_all
    with l(4) l'(3) have "fmt_u 5 m = fmt_u 5 n"
      by (subst (asm) append_eq_append_conv) simp_all
    then show ?thesis by (rule fmt_u_inj)
  qed
qed

lemma generate_txn_id_text:
  "fst (generate_txn_id 32 lt s) = txn_id_text lt (size_t (txn_sequence s + 1))"
  by (simp add: generate_txn_id_def txn_id_text_def Let_def split: option.split)

lemma ledger_count_bound:
  assumes "ledger_ok s"
  shows "tx_count s + 1 < 10 ^ 18" "tx_count s + 1 < 2 ^ 64"
proof -
  from assms have "tx_count s \<le> tx_capacity s" "tx_capacity s * 80 < 2 ^ 63"
    by (simp_all add: ledger_ok_def sizeof_Transaction_def)
  then show "tx_count s + 1 < 10 ^ 18" "tx_count s + 1 < 2 ^ 64" by simp_all
qed

lemma ids_ok_initial_state:
  "ids_ok (initial_state :: 'a::{zero,numeral,inverse,power} state)"
  by (simp add: ids_ok_def initial_state_counts)

lemma ids_ok_stored:
  assumes s: "ledger_ok s" "ids_ok s" and lt: "tm_valid lt"
    and s': "tx_count s' = tx_count s + 1" "txn_sequence s' = size_t (txn_sequence s + 1)"
      "take (tx_count s) (transactions s') = take (tx_count s) (transactions s)"
      "txn_id (transactions s' ! tx_count s) = fst (generate_txn_id 32 lt s)"
  shows "ids_ok s'"
proof -
  from s(2) have seq: "txn_sequence s = tx_count s"
    and old: "\<And>i. i < tx_count s \<Longrightarrow>
      \<exists>lt. tm_valid lt \<and> txn_id (transactions s ! i) = txn_id_text lt (i + 1)"
    by (simp_all add: ids_ok_def)
  from ledger_count_bound(2) [OF s(1)] have "size_t (tx_count s + 1) = tx_count s + 1"
    by (rule size_t_id)
  then have sz: "size_t (Suc (tx_count s)) = Suc (tx_count s)" by simp
  have new: "txn_id (transactions s' ! tx_count s) = txn_id_text lt (tx_count s + 1)"
    by (simp add: s'(4) generate_txn_id_text seq sz)
  have "\<exists>lt. tm_valid lt \<and> txn_id (transactions s' ! i) = txn_id_text lt (i + 1)"
    if "i < tx_count s'" for i
  proof (cases "i < tx_count s")
    case True
    have "transactions s' ! i = take (tx_count s) (transactions s') ! i"
      using True by simp
    also have "\<dots> = transactions s ! i"
      using True by (simp add: s'(3))
    finally show ?thesis using old [OF True] by simp
  next
    case False
    with that s'(1) have "i = tx_count s" by simp
    with new lt show ?thesis by blast
  qed
  moreover have "txn_sequence s' = tx_count s'"
    by (simp add: s' seq sz)
  ultimately show ?thesis by (simp add: ids_ok_def)
qed

lemma process_sale_Inr_ids:
  assumes "ledger_ok s" "ids_ok s" "heap_bounded (realloc_ok env)" "tm_valid (id_localtime env)"
    and "process_sale inp env s = Inr (r, s')"
  shows "ids_ok s'"
proof (cases "rejected inp s")
  case True
  from process_sale_rejected [OF this, of env] assms(2,5) show ?thesis by auto
next
  case False
  from process_sale_accepted [OF this, of env]
  obtain pid v m x p where
    "process_sale inp env s =
       commit_sale env pid (sale_fuel s pid) v (sale_quantity s pid m x) (sale_amount s pid m x) p s"
    by blast
  with assms(5) have c: "commit_sale env pid (sale_fuel s pid) v (sale_quantity s pid m x)
      (sale_amount s pid m x) p s = Inr (r, s')" by simp
  let ?d = "sale_deducted (sale_fuel s pid) (sale_quantity s pid m x) s"
  let ?tx = "sale_record env pid (sale_fuel s pid) v (sale_quantity s pid m x)
      (sale_amount s pid m x) p s"
  have okd: "ledger_ok ?d" using assms(1) by (simp add: ledger_ok_sale_deducted)
  note f = record_transaction_Inr [OF okd assms(3) commit_sale_Inr(2) [OF c]]
  show ?thesis
  proof (rule ids_ok_stored [OF assms(1,2,4)])
    show "tx_count s' = tx_count s + 1"
      using f(2) by (simp add: sale_deducted_fields)
    show "txn_sequence s' = size_t (txn_sequence s + 1)"
      using f(3) by (simp add: sale_deducted_fields)
    show "take (tx_count s) (transactions s') = take (tx_count s) (transactions s)"
      using f(5) by (simp add: sale_deducted_fields)
    show "txn_id (transactions s' ! tx_count s) = fst (generate_txn_id 32 (id_localtime env) s)"
      using f(6) by (simp add: sale_deducted_fields sale_record_def)
  qed
qed

lemma ids_ok_add_supply: "ids_ok (add_supply in_f in_amt s) = ids_ok s"
  by (simp add: add_supply_def ids_ok_def split: option.split)

lemma ids_ok_change_pump_status: "ids_ok (change_pump_status in_pid in_s s) = ids_ok s"
  by (simp add: change_pump_status_def ids_ok_def Let_def split: option.split)

lemma ids_ok_generate_daily_report: "ids_ok (generate_daily_report s) = ids_ok s"
  by (simp add: generate_daily_report_def ids_ok_def)

lemma menu_step_ids:
  assumes "ledger_ok s" "ids_ok s" "heaps_bounded [c]" "clocks_valid [c]" "menu_step c s = Inr s'"
  shows "ids_ok s'"
proof (cases c)
  case (Process_sale inp env)
  with assms(3,4) have hb: "heap_bounded (realloc_ok env)" and cv: "tm_valid (id_localtime env)"
    by (simp_all add: heaps_bounded_def clocks_valid_def)
  from assms(5) Process_sale obtain r where "process_sale inp env s = Inr (r, s')"
    by (cases "process_sale inp env s") (auto simp add: menu_step_def)
  from process_sale_Inr_ids [OF assms(1,2) hb cv this] show ?thesis .
next
  case (Add_supply in_f in_amt)
  with assms(2,5) show ?thesis by (auto simp add: menu_step_def ids_ok_add_supply)
next
  case (Change_pump_status in_pid in_s)
  with assms(2,5) show ?thesis by (auto simp add: menu_step_def ids_ok_change_pump_status)
next
  case Generate_daily_report
  with assms(2,5) show ?thesis by (auto simp add: menu_step_def ids_ok_generate_daily_report)
next
  case Print_only
  with assms(2,5) show ?thesis by (auto simp add: menu_step_def)
qed

lemma menu_loop_ids:
  assumes "ledger_ok s" "ids_ok s" "heaps_bounded cs" "clocks_valid cs" "menu_loop cs s = Inr s'"
  shows "ledger_ok s' \<and> ids_ok s'"
  using assms
proof (induction cs arbitrary: s)
  case Nil
  then show ?case by simp
next
  case (Cons c cs)
  from Cons.prems(3,4) have h: "heaps_bounded [c]" "heaps_bounded cs"
      "clocks_valid [c]" "clocks_valid cs"
    by (simp_all add: heaps_bounded_def clocks_valid_def)
  from Cons.prems(5) obtain s1 where s1: "menu_step c s = Inr s1" and r: "menu_loop cs s1 = Inr s'"
    by (cases "menu_step c s") simp_all
  from menu_step_ledger(2) [OF Cons.prems(1) h(1) s1] have l1: "ledger_ok s1" .
  from menu_step_ids [OF Cons.prems(1,2) h(1) h(3) s1] have i1: "ids_ok s1" .
  from Cons.IH [OF l1 i1 h(2) h(4) r] show ?case .
qed

lemma ids_distinct:
  assumes "ledger_ok s" "ids_ok s" "i < tx_count s" "j < tx_count s" "i \<noteq> j"
  shows "txn_id (transactions s ! i) \<noteq> txn_id (transactions s ! j)"
proof
  assume e: "txn_id (transactions s ! i) = txn_id (transactions s ! j)"
  from assms(2,3) obtain lt1 where 1: "tm_valid lt1"
      "txn_id (transactions s ! i) = txn_id_text lt1 (i + 1)"
    by (auto simp add: ids_ok_def)
  from assms(2,4) obtain lt2 where 2: "tm_valid lt2"
      "txn_id (transactions s ! j) = txn_id_text lt2 (j + 1)"
    by (auto simp add: ids_ok_def)
  from ledger_count_bound(1) [OF assms(1)] assms(3,4)
  have b: "i + 1 < 10 ^ 18" "j + 1 < 10 ^ 18" by simp_all
  from e 1(2) 2(2) have "txn_id_text lt1 (i + 1) = txn_id_text lt2 (j + 1)" by simp
  from txn_id_text_inj [OF 1(1) 2(1) b this] assms(5) show False by simp
qed

lemma generate_txn_id_distinct:
  assumes "tm_valid lt1" "tm_valid lt2" "txn_sequence s1 \<noteq> txn_sequence s2"
    "txn_sequence s1 + 1 < 10 ^ 18" "txn_sequence s2 + 1 < 10 ^ 18"
  shows "fst (generate_txn_id 32 lt1 s1) \<noteq> fst (generate_txn_id 32 lt2 s2)"
proof
  assume e: "fst (generate_txn_id 32 lt1 s1) = fst (generate_txn_id 32 lt2 s2)"
  from assms(4,5) have "size_t (txn_sequence s1 + 1) = txn_sequence s1 + 1"
    "size_t (txn_sequence s2 + 1) = txn_sequence s2 + 1"
    by (simp_all add: size_t_def)
  with e have "txn_id_text lt1 (txn_sequence s1 + 1) = txn_id_text lt2 (txn_sequence s2 + 1)"
    by (simp add: generate_txn_id_text)
  from txn_id_text_inj [OF assms(1,2,4,5) this] assms(3) show False by simp
qed

lemma generate_txn_id_counter:
  "txn_sequence s + 1 < 2 ^ 64 \<Longrightarrow>
     txn_sequence (snd (generate_txn_id outsz lt s)) = txn_sequence s + 1"
  by (simp add: generate_txn_id_state size_t_def)

lemma clocks_valid_two_attempts: "clocks_valid two_attempts"
  by (simp add: clocks_valid_def two_attempts_def at_five_pm_def tm_valid_def five_pm_def)

text \<open>
  C4. In every state that \<^verbatim>\<open>main\<close> reaches, the counter of \<^verbatim>\<open>generate_txn_id\<close>
  equals the number of stored transactions and is below \<open>10 ^ 18\<close>, and the
  identifiers of any two stored transactions differ. Two calls of
  \<^verbatim>\<open>generate_txn_id\<close> at different values of the counter below \<open>10 ^ 18\<close> write
  different identifiers whatever \<^verbatim>\<open>localtime\<close> returned at each (the same time,
  different times, \<^verbatim>\<open>NULL\<close>), and each call increments the counter. The bound is
  where the 31 characters of the buffer cut the text; a run stays below it because
  every identifier generated is stored in an array that the allocator granted.
  Assumed: \<^verbatim>\<open>localtime\<close> returns a month, a day and an hour in their standard
  ranges (so that each takes two characters), and the allocator returns no block of
  \<open>2 ^ 63\<close> bytes or more.
\<close>

theorem transaction_ids_distinct:
  fixes cs :: "'d::{zero,plus,minus,times,inverse,ord,numeral,power} command list"
  assumes "heaps_bounded cs" and "clocks_valid cs"
  shows
    "(\<forall>s. main calloc_ok cs = Inr s \<longrightarrow>
        txn_sequence s = tx_count s \<and> txn_sequence s + 1 < 10 ^ 18 \<and>
        (\<forall>i<tx_count s. \<forall>j<tx_count s. i \<noteq> j \<longrightarrow>
           txn_id (transactions s ! i) \<noteq> txn_id (transactions s ! j))) \<and>
     (\<forall>lt1 lt2 (s1 :: 'd state) (s2 :: 'd state).
        tm_valid lt1 \<and> tm_valid lt2 \<and> txn_sequence s1 \<noteq> txn_sequence s2 \<and>
        txn_sequence s1 + 1 < 10 ^ 18 \<and> txn_sequence s2 + 1 < 10 ^ 18 \<longrightarrow>
        fst (generate_txn_id 32 lt1 s1) \<noteq> fst (generate_txn_id 32 lt2 s2)) \<and>
     (\<forall>lt (s1 :: 'd state). txn_sequence s1 + 1 < 2 ^ 64 \<longrightarrow>
        txn_sequence (snd (generate_txn_id 32 lt s1)) = txn_sequence s1 + 1)"
proof -
  have run: "txn_sequence s = tx_count s \<and> txn_sequence s + 1 < 10 ^ 18 \<and>
        (\<forall>i<tx_count s. \<forall>j<tx_count s. i \<noteq> j \<longrightarrow>
           txn_id (transactions s ! i) \<noteq> txn_id (transactions s ! j))"
    if m: "main calloc_ok cs = Inr s" for s :: "'d state"
  proof -
    have c: "calloc_ok"
      using m by (cases calloc_ok) (simp_all add: main_def initialize_system_no_memory)
    with m have "menu_loop cs initial_state = Inr s"
      by (simp add: main_def initialize_system_eq)
    from menu_loop_ids [OF ledger_ok_initial_state ids_ok_initial_state assms this]
    have l: "ledger_ok s" and i: "ids_ok s" by simp_all
    from i have "txn_sequence s = tx_count s" by (simp add: ids_ok_def)
    moreover from this ledger_count_bound(1) [OF l] have "txn_sequence s + 1 < 10 ^ 18" by simp
    ultimately show ?thesis using ids_distinct [OF l i] by blast
  qed
  show ?thesis
    using run generate_txn_id_distinct generate_txn_id_counter by blast
qed

theorem transaction_ids_distinct_witness:
  "heaps_bounded two_attempts \<and> clocks_valid two_attempts \<and>
   (\<exists>s. main True two_attempts = Inr s \<and> txn_sequence s = 1 \<and> tx_count s = 1) \<and>
   fst (generate_txn_id 32 (Some five_pm) (initial_state :: real state))
     \<noteq> fst (generate_txn_id 32 (Some five_pm) (initial_state\<lparr>txn_sequence := 1\<rparr> :: real state)) \<and>
   fst (generate_txn_id 32 (Some five_pm) (initial_state :: real state))
     \<noteq> fst (generate_txn_id 32 None (initial_state\<lparr>txn_sequence := 1\<rparr> :: real state))"
proof -
  note t = transaction_ids_distinct [OF heaps_bounded_two_attempts clocks_valid_two_attempts, of True]
  from main_two_attempts obtain s where s: "main True two_attempts = Inr s" "tx_count s = 1"
    by blast
  with t have "txn_sequence s = 1" by simp
  with s have 1: "\<exists>s. main True two_attempts = Inr s \<and> txn_sequence s = 1 \<and> tx_count s = 1"
    by blast
  have v: "tm_valid (Some five_pm)" "tm_valid None"
    by (simp_all add: tm_valid_def five_pm_def)
  have q: "txn_sequence (initial_state :: real state) = 0"
    "txn_sequence (initial_state\<lparr>txn_sequence := 1\<rparr> :: real state) = 1"
    by (simp_all add: initial_state_counts)
  from t v q have 2: "fst (generate_txn_id 32 (Some five_pm) (initial_state :: real state))
     \<noteq> fst (generate_txn_id 32 (Some five_pm) (initial_state\<lparr>txn_sequence := 1\<rparr> :: real state))"
    by simp
  from t v q have 3: "fst (generate_txn_id 32 (Some five_pm) (initial_state :: real state))
     \<noteq> fst (generate_txn_id 32 None (initial_state\<lparr>txn_sequence := 1\<rparr> :: real state))"
    by simp
  from 1 2 3 heaps_bounded_two_attempts clocks_valid_two_attempts show ?thesis by blast
qed


section \<open>Listing the transactions\<close>

text \<open>
  C6, as amended. \<^verbatim>\<open>list_transactions\<close> prints the stored transactions most recent
  first: when the ledger is not empty, line \<open>i\<close> of the listing shows the transaction
  stored at position \<open>tx_count - 1 - i\<close>, that is the listing is the ledger in the
  reverse of the insertion order.
\<close>

theorem list_transactions_most_recent_first:
  assumes "0 < tx_count s" and "tx_count s \<le> length (transactions s)"
  shows "\<exists>rows. list_transactions s = Inr (Some rows) \<and>
           rows = rev (take (tx_count s) (transactions s)) \<and>
           length rows = tx_count s \<and>
           (\<forall>i<tx_count s. rows ! i = transactions s ! (tx_count s - 1 - i))"
proof -
  let ?rows = "rev (take (tx_count s) (transactions s))"
  have "list_transactions s = Inr (Some ?rows)"
    using assms by (simp add: list_transactions_def list_from_rev)
  moreover have "length ?rows = tx_count s"
    using assms by simp
  moreover have "?rows ! i = transactions s ! (tx_count s - 1 - i)" if "i < tx_count s" for i
    using that assms by (simp add: rev_nth)
  ultimately show ?thesis by blast
qed

theorem list_transactions_most_recent_first_witness:
  "0 < tx_count two_sales \<and> tx_count two_sales \<le> length (transactions two_sales) \<and>
   list_transactions two_sales = Inr (Some [second_sale, first_sale])"
proof -
  have a: "0 < tx_count two_sales" and b: "tx_count two_sales \<le> length (transactions two_sales)"
    by (simp_all add: two_sales_def)
  have "rev (take (tx_count two_sales) (transactions two_sales)) = [second_sale, first_sale]"
    by (simp add: two_sales_def numeral_2_eq_2)
  with list_transactions_most_recent_first [OF a b] a b show ?thesis by simp
qed

text \<open>
  C6, as stated, fails on a ledger of two transactions: the first line of the listing
  is the second transaction, not the first.
\<close>

theorem list_transactions_insertion_order_counterexample:
  "list_transactions two_sales = Inr (Some [second_sale, first_sale]) \<and>
   take (tx_count two_sales) (transactions two_sales) = [first_sale, second_sale] \<and>
   [second_sale, first_sale] ! 0 \<noteq> transactions two_sales ! 0"
proof -
  have "list_from (Suc (Suc 0)) (transactions two_sales) = Inr [second_sale, first_sale]"
    by (simp add: two_sales_def)
  then have "list_transactions two_sales = Inr (Some [second_sale, first_sale])"
    by (simp add: list_transactions_def two_sales_def numeral_2_eq_2)
  moreover have "take (tx_count two_sales) (transactions two_sales) = [first_sale, second_sale]"
    by (simp add: two_sales_def numeral_2_eq_2)
  moreover have "second_sale \<noteq> first_sale"
    by (simp add: first_sale_def second_sale_def)
  ultimately show ?thesis by (simp add: two_sales_def)
qed

section \<open>Rounding to binary64\<close>

text \<open>
  How a rounding is evaluated: \<open>a\<close> and \<open>b\<close> give the binade of \<open>q\<close>, \<open>k\<close> the
  position of its last bit, and \<open>n\<close> is the integer nearest to \<open>q * 2 ^ k\<close>, the even
  one at a tie.
\<close>

lemma bitlen_rat_bounds:
  assumes "0 < n"
  shows "2 powi (bitlen n - 1) \<le> rat_of_int n" "rat_of_int n < 2 powi bitlen n"
proof -
  from assms have b: "1 \<le> bitlen n" by (auto simp add: bitlen_alt_def)
  from bitlen_bounds [OF assms]
  have l: "2 ^ nat (bitlen n - 1) \<le> n" and u: "n < 2 ^ nat (bitlen n)" by simp_all
  from l have "rat_of_int (2 ^ nat (bitlen n - 1)) \<le> rat_of_int n" by (simp only: of_int_le_iff)
  with b show "2 powi (bitlen n - 1) \<le> rat_of_int n"
    by (simp add: power_int_nonneg_exp)
  from u have "rat_of_int n < rat_of_int (2 ^ nat (bitlen n))" by (simp only: of_int_less_iff)
  with b show "rat_of_int n < 2 powi bitlen n"
    by (simp add: power_int_nonneg_exp)
qed

lemma binary_exponent_bounds:
  assumes "q \<noteq> 0"
  shows "2 powi binary_exponent q \<le> \<bar>q\<bar>" "\<bar>q\<bar> < 2 powi (binary_exponent q + 1)"
proof -
  let ?x = "\<bar>q\<bar>"
  obtain n d where nd: "quotient_of ?x = (n, d)" by (cases "quotient_of ?x")
  from quotient_of_denom_pos [OF nd] have d: "0 < d" .
  from quotient_of_div [OF nd] have x: "?x = rat_of_int n / rat_of_int d" .
  from assms have "0 < ?x" by simp
  with x d have n: "0 < n" by (simp add: zero_less_divide_iff)
  let ?k = "bitlen n - bitlen d"
  note bn = bitlen_rat_bounds [OF n]
  note bd = bitlen_rat_bounds [OF d]
  have dpos: "0 < rat_of_int d" using d by simp
  have "rat_of_int n < 2 powi (?k + 1) * 2 powi (bitlen d - 1)"
    using bn(2) by (simp flip: power_int_add)
  also have "\<dots> \<le> 2 powi (?k + 1) * rat_of_int d"
    using bd(1) by (simp add: mult_left_mono)
  finally have up: "?x < 2 powi (?k + 1)"
    using dpos by (simp add: x pos_divide_less_eq)
  have "2 powi (?k - 1) * rat_of_int d < 2 powi (?k - 1) * 2 powi bitlen d"
    using bd(2) by (simp add: mult_strict_left_mono)
  also have "\<dots> = 2 powi (bitlen n - 1)"
    by (simp flip: power_int_add)
  also have "\<dots> \<le> rat_of_int n" by (rule bn(1))
  finally have lo: "2 powi (?k - 1) < ?x"
    using dpos by (simp add: x pos_less_divide_eq)
  have e: "binary_exponent q = (if 2 powi ?k \<le> ?x then ?k else ?k - 1)"
    by (simp add: binary_exponent_def nd Let_def)
  show "2 powi binary_exponent q \<le> ?x"
    using lo by (simp add: e)
  show "?x < 2 powi (binary_exponent q + 1)"
    using up by (simp add: e)
qed

lemma binade_unique:
  fixes x :: rat
  assumes "2 powi e \<le> x" "x < 2 powi (e + 1)" "2 powi e' \<le> x" "x < 2 powi (e' + 1)"
  shows "e = e'"
proof -
  from assms(1,4) have "(2::rat) powi e < 2 powi (e' + 1)" by simp
  then have 1: "e < e' + 1"
    by (metis linorder_not_less power_int_increasing one_le_numeral)
  from assms(3,2) have "(2::rat) powi e' < 2 powi (e + 1)" by simp
  then have 2: "e' < e + 1"
    by (metis linorder_not_less power_int_increasing one_le_numeral)
  from 1 2 show ?thesis by simp
qed

lemma binary_exponent_eq:
  assumes "2 ^ a \<le> \<bar>q\<bar> * 2 ^ b" "\<bar>q\<bar> * 2 ^ b < 2 * 2 ^ a"
  shows "binary_exponent q = int a - int b"
proof -
  have "(0::rat) < 2 ^ a" by simp
  with assms(1) have "0 < \<bar>q\<bar> * 2 ^ b" by linarith
  then have nz: "q \<noteq> 0" by auto
  have p: "(2::rat) powi (int a - int b) = 2 ^ a / 2 ^ b"
    by (simp add: power_int_diff)
  have q: "(2::rat) powi (int a - int b + 1) = 2 * 2 ^ a / 2 ^ b"
    by (simp add: power_int_add power_int_diff)
  have l: "2 powi (int a - int b) \<le> \<bar>q\<bar>"
    using assms(1) by (simp add: p pos_divide_le_eq)
  have u: "\<bar>q\<bar> < 2 powi (int a - int b + 1)"
    using assms(2) by (simp add: q pos_less_divide_eq)
  from binade_unique [OF binary_exponent_bounds [OF nz] l u] show ?thesis .
qed

lemma round_half_even_eq:
  assumes "\<bar>x - of_int n\<bar> < 1 / 2 \<or> (\<bar>x - of_int n\<bar> = 1 / 2 \<and> even n)"
  shows "round_half_even x = n"
proof -
  consider "of_int n \<le> x" "x - of_int n < 1 / 2"
    | "x < of_int n" "of_int n - x < 1 / 2"
    | "x = of_int n + 1 / 2" "even n"
    | "x = of_int n - 1 / 2" "even n"
    using assms by (auto simp add: abs_if split: if_splits) 
  then show ?thesis
  proof cases
    case 1
    then have "\<lfloor>x\<rfloor> = n" by (simp add: floor_eq_iff)
    with 1 show ?thesis by (simp add: round_half_even_def Let_def)
  next
    case 2
    then have "\<lfloor>x\<rfloor> = n - 1" by (simp add: floor_eq_iff)
    with 2 show ?thesis by (simp add: round_half_even_def Let_def)
  next
    case 3
    then have "\<lfloor>x\<rfloor> = n" by (simp add: floor_eq_iff)
    with 3 show ?thesis by (simp add: round_half_even_def Let_def)
  next
    case 4
    then have "\<lfloor>x\<rfloor> = n - 1" by (simp add: floor_eq_iff)
    with 4 show ?thesis by (simp add: round_half_even_def Let_def)
  qed
qed

lemma round_binary64_at:
  assumes "2 ^ a \<le> \<bar>q\<bar> * 2 ^ b" "\<bar>q\<bar> * 2 ^ b < 2 * 2 ^ a" "k + a = b + 52"
    and "\<bar>q * 2 ^ k - of_int n\<bar> < 1 / 2 \<or> (\<bar>q * 2 ^ k - of_int n\<bar> = 1 / 2 \<and> even n)"
  shows "round_binary64 q = of_int n / 2 ^ k"
proof -
  have "(0::rat) < 2 ^ a" by simp
  with assms(1) have "0 < \<bar>q\<bar> * 2 ^ b" by linarith
  then have nz: "q \<noteq> 0" by auto
  from assms(3) have "int a - int b - 52 = - int k" by linarith
  then have u: "(2::rat) powi (binary_exponent q - 52) = 1 / 2 ^ k"
    by (simp add: binary_exponent_eq [OF assms(1,2)] power_int_minus inverse_eq_divide)
  have "round_half_even (q * 2 ^ k) = n"
    using assms(4) by (rule round_half_even_eq)
  then show ?thesis
    using nz by (simp add: round_binary64_def Let_def u)
qed

section \<open>What a sale does to the state\<close>

lemma total_Nil: "total [] = 0"
  by (simp add: total_def)

lemma total_snoc: "total (xs @ [x]) = total xs + x"
  by (simp add: total_def)

lemma record_transaction_Inr_valid:
  fixes tx :: "'d::{zero,plus} Transaction"
  assumes "ledger_ok s" "heap_bounded ok" "record_transaction ok lt tx s = Inr s'"
  shows "ensure_tx_capacity ok s \<noteq> Inl CapacityExpansionFailed" "hour_valid lt"
proof -
  show e: "ensure_tx_capacity ok s \<noteq> Inl CapacityExpansionFailed"
    using assms(3) by (auto simp add: record_transaction_def)
  show "hour_valid lt"
  proof (rule ccontr)
    assume "\<not> hour_valid lt"
    then obtain t where t: "lt = Some t" "\<not> (0 \<le> tm_hour t \<and> tm_hour t < 24)"
      by (auto simp add: hour_valid_def split: option.splits)
    from ensure_tx_capacity_total [OF assms(1) e]
    obtain s1 where s1: "ensure_tx_capacity ok s = Inr s1" by blast
    have "record_transaction ok lt tx s = Inl HourOutOfBounds"
      using t by (simp add: record_transaction_eq [OF assms(1,2) s1] update_hour_wise_def Let_def)
    with assms(3) show False by simp
  qed
qed

lemma record_transaction_Inr_all:
  fixes tx :: "'d::{zero,plus} Transaction"
  assumes "ledger_ok s" "heap_bounded ok" "record_transaction ok lt tx s = Inr s'"
  shows "ledger_ok s'" "ledger s' = ledger s @ [tx]" "fuels s' = fuels s"
    "pumps s' = pumps (update_pump_stats tx s)"
    "fuel_wise_quantity s' = (fuel_wise_quantity s)
        (tx_fuel_type tx := fuel_wise_quantity s (tx_fuel_type tx) + quantity tx)"
    "fuel_wise_amount s' = (fuel_wise_amount s)
        (tx_fuel_type tx := fuel_wise_amount s (tx_fuel_type tx) + amount tx)"
proof -
  from record_transaction_Inr_valid [OF assms]
  have e: "ensure_tx_capacity ok s \<noteq> Inl CapacityExpansionFailed" and h: "hour_valid lt" .
  from record_transaction_result [OF assms(1,2) e h, of tx] assms(3)
  have r: "ledger_ok s'" "tx_count s' = tx_count s + 1"
     "take (tx_count s) (transactions s') = take (tx_count s) (transactions s)"
     "transactions s' ! tx_count s = tx" "fuels s' = fuels s"
     "pumps s' = pumps (update_pump_stats tx s)"
     "fuel_wise_quantity s' = (fuel_wise_quantity s)
        (tx_fuel_type tx := fuel_wise_quantity s (tx_fuel_type tx) + quantity tx)"
     "fuel_wise_amount s' = (fuel_wise_amount s)
        (tx_fuel_type tx := fuel_wise_amount s (tx_fuel_type tx) + amount tx)"
    by auto
  from r(1,2) have "tx_count s < length (transactions s')"
    by (simp add: ledger_ok_def)
  then have "take (Suc (tx_count s)) (transactions s') =
      take (tx_count s) (transactions s') @ [transactions s' ! tx_count s]"
    by (rule take_Suc_conv_app_nth)
  with r(2,3,4) show "ledger s' = ledger s @ [tx]"
    by (simp add: ledger_def)
  from r show "ledger_ok s'" "fuels s' = fuels s" "pumps s' = pumps (update_pump_stats tx s)"
    "fuel_wise_quantity s' = (fuel_wise_quantity s)
        (tx_fuel_type tx := fuel_wise_quantity s (tx_fuel_type tx) + quantity tx)"
    "fuel_wise_amount s' = (fuel_wise_amount s)
        (tx_fuel_type tx := fuel_wise_amount s (tx_fuel_type tx) + amount tx)"
    by simp_all
qed

lemma sale_deducted_more_fields:
  "ledger (sale_deducted ftype qty s) = ledger s"
  "fuel_wise_quantity (sale_deducted ftype qty s) = fuel_wise_quantity s"
  "fuel_wise_amount (sale_deducted ftype qty s) = fuel_wise_amount s"
  "fuels (sale_deducted ftype qty s) = (fuels s)(ftype := (fuels s ftype)
     \<lparr>current_stock := current_stock (fuels s ftype) - qty\<rparr>)"
  "pumps (update_pump_stats tx (sale_deducted ftype qty s)) = pumps (update_pump_stats tx s)"
  by (simp_all add: sale_deducted_def ledger_def update_pump_stats_def pump_index_by_id_def Let_def)

text \<open>
  The two ways \<^verbatim>\<open>process_sale\<close> returns: without a receipt and with the state it
  was given, or with the receipt of a record \<open>tx\<close> that is now the last of the
  ledger, its quantity taken from the stock of its fuel and its fields added to the
  accumulators of its fuel and of its pump.
\<close>

lemma process_sale_Inr_cases:
  fixes s :: "'d::{zero,plus,minus,times,inverse,ord} state"
  assumes "ledger_ok s" "heap_bounded (realloc_ok env)" "process_sale inp env s = Inr (r, s')"
  obtains (refused) "rejected inp s" "s' = s" "\<forall>tx. r \<noteq> Receipt tx"
  | (sold) tx where "\<not> rejected inp s" "r = Receipt tx" "ledger_ok s'"
      "ledger s' = ledger s @ [tx]"
      "0 \<le> pump_index_by_id s (tx_pump_id tx)"
      "tx_fuel_type tx = sale_fuel s (tx_pump_id tx)"
      "\<not> current_stock (fuels s (tx_fuel_type tx)) < quantity tx"
      "fuels s' = (fuels s)(tx_fuel_type tx := (fuels s (tx_fuel_type tx))
         \<lparr>current_stock := current_stock (fuels s (tx_fuel_type tx)) - quantity tx\<rparr>)"
      "pumps s' = pumps (update_pump_stats tx s)"
      "fuel_wise_quantity s' = (fuel_wise_quantity s)
          (tx_fuel_type tx := fuel_wise_quantity s (tx_fuel_type tx) + quantity tx)"
      "fuel_wise_amount s' = (fuel_wise_amount s)
          (tx_fuel_type tx := fuel_wise_amount s (tx_fuel_type tx) + amount tx)"
      "\<exists>x. in_value inp = Some x \<and>
         (quantity tx = x \<or> quantity tx = x / price (fuels s (tx_fuel_type tx)))"
proof (cases "rejected inp s")
  case True
  from process_sale_rejected [OF this, of env] assms(3)
  have "s' = s" "\<forall>tx. r \<noteq> Receipt tx" by auto
  with True show ?thesis by (rule refused)
next
  case False
  from process_sale_accepted [OF this, of env]
  obtain pid v m x p where i: "in_pump_id inp = Some pid" "in_mode inp = Some m"
      "in_value inp = Some x"
    and e: "process_sale inp env s =
       commit_sale env pid (sale_fuel s pid) v (sale_quantity s pid m x) (sale_amount s pid m x) p s"
    by blast
  let ?f = "sale_fuel s pid"
  let ?q = "sale_quantity s pid m x"
  let ?tx = "sale_record env pid ?f v ?q (sale_amount s pid m x) p s"
  let ?d = "sale_deducted ?f ?q s"
  from e assms(3) have "commit_sale env pid ?f v ?q (sale_amount s pid m x) p s = Inr (r, s')"
    by simp
  from commit_sale_Inr [OF this]
  have r: "r = Receipt ?tx"
    and rt: "record_transaction (realloc_ok env) (tx_localtime env) ?tx ?d = Inr s'" .
  have okd: "ledger_ok ?d" using assms(1) by (simp add: ledger_ok_sale_deducted)
  note a = record_transaction_Inr_all [OF okd assms(2) rt]
  have f: "tx_pump_id ?tx = pid" "tx_fuel_type ?tx = ?f" "quantity ?tx = ?q"
    by (simp_all add: sale_record_def)
  from False i have idx: "0 \<le> pump_index_by_id s pid"
    by (auto simp add: rejected_def)
  from False i have st: "\<not> current_stock (fuels s ?f) < ?q"
    by (auto simp add: rejected_def)
  show ?thesis
  proof (rule sold [of ?tx])
    show "\<not> rejected inp s" by (rule False)
    show "r = Receipt ?tx" by (rule r)
    show "ledger_ok s'" by (rule a(1))
    show "ledger s' = ledger s @ [?tx]"
      using a(2) by (simp add: sale_deducted_more_fields)
    show "0 \<le> pump_index_by_id s (tx_pump_id ?tx)"
      using idx by (simp only: f)
    show "tx_fuel_type ?tx = sale_fuel s (tx_pump_id ?tx)"
      by (simp only: f)
    show "\<not> current_stock (fuels s (tx_fuel_type ?tx)) < quantity ?tx"
      using st by (simp add: sale_record_def)
    show "fuels s' = (fuels s)(tx_fuel_type ?tx := (fuels s (tx_fuel_type ?tx))
         \<lparr>current_stock := current_stock (fuels s (tx_fuel_type ?tx)) - quantity ?tx\<rparr>)"
      using a(3) by (simp only: f sale_deducted_more_fields)
    show "pumps s' = pumps (update_pump_stats ?tx s)"
      using a(4) by (simp only: sale_deducted_more_fields)
    show "fuel_wise_quantity s' = (fuel_wise_quantity s)
          (tx_fuel_type ?tx := fuel_wise_quantity s (tx_fuel_type ?tx) + quantity ?tx)"
      using a(5) by (simp only: sale_deducted_more_fields)
    show "fuel_wise_amount s' = (fuel_wise_amount s)
          (tx_fuel_type ?tx := fuel_wise_amount s (tx_fuel_type ?tx) + amount ?tx)"
      using a(6) by (simp only: sale_deducted_more_fields)
    show "\<exists>x. in_value inp = Some x \<and>
         (quantity ?tx = x \<or> quantity ?tx = x / price (fuels s (tx_fuel_type ?tx)))"
      using i(3) by (simp add: sale_record_def sale_quantity_def)
  qed
qed

section \<open>The accumulators follow the ledger\<close>

lemma fuel_ledger_snoc:
  "ledger s' = ledger s @ [tx] \<Longrightarrow>
     fuel_ledger f s' = fuel_ledger f s @ (if tx_fuel_type tx = f then [tx] else [])"
  by (simp add: fuel_ledger_def)

lemma pump_ledger_snoc:
  "ledger s' = ledger s @ [tx] \<Longrightarrow>
     pump_ledger pid s' = pump_ledger pid s @ (if tx_pump_id tx = pid then [tx] else [])"
  by (simp add: pump_ledger_def)

lemma pump_of_sale_numbered:
  assumes n: "\<forall>i<PUMP_COUNT. pump_id (pumps s i) = int i + 1"
    and i: "i < PUMP_COUNT"
  shows "pumps (update_pump_stats tx s) i =
     (if tx_pump_id tx = int i + 1 then pump_credited tx (pumps s i) else pumps s i)"
proof -
  have "\<forall>j<i. pump_id (pumps s j) \<noteq> int i + 1"
    using n i by auto
  with n i show ?thesis
    by (auto simp add: pumps_update_pump_stats_first)
qed

lemma sale_pump_in_range:
  assumes n: "\<forall>i<PUMP_COUNT. pump_id (pumps s i) = int i + 1"
    and p: "0 \<le> pump_index_by_id s pid"
  shows "1 \<le> pid \<and> pid \<le> int PUMP_COUNT"
proof -
  from p have "\<not> pump_index_by_id s pid < 0" by simp
  then obtain i where "i < PUMP_COUNT" "pump_id (pumps s i) = pid"
    by (auto simp add: pump_index_by_id_unknown)
  with n show ?thesis by auto
qed

lemma buckets_ok_sold:
  fixes s :: "'d::{zero,plus} state"
  assumes b: "buckets_ok s"
    and l: "ledger s' = ledger s @ [tx]"
    and p: "0 \<le> pump_index_by_id s (tx_pump_id tx)"
    and ps: "pumps s' = pumps (update_pump_stats tx s)"
    and fq: "fuel_wise_quantity s' = (fuel_wise_quantity s)
          (tx_fuel_type tx := fuel_wise_quantity s (tx_fuel_type tx) + quantity tx)"
    and fa: "fuel_wise_amount s' = (fuel_wise_amount s)
          (tx_fuel_type tx := fuel_wise_amount s (tx_fuel_type tx) + amount tx)"
  shows "buckets_ok s'"
proof -
  from b have n: "\<forall>i<PUMP_COUNT. pump_id (pumps s i) = int i + 1"
    by (simp add: buckets_ok_def)
  have 1: "fuel_wise_amount s' f = total (map amount (fuel_ledger f s')) \<and>
      fuel_wise_quantity s' f = total (map quantity (fuel_ledger f s'))" for f
    using b by (simp add: buckets_ok_def fa fq fuel_ledger_snoc [OF l] total_snoc)
  have 2: "pump_id (pumps s' i) = int i + 1 \<and>
      total_amount (pumps s' i) = total (map amount (pump_ledger (int i + 1) s')) \<and>
      total_quantity (pumps s' i) = total (map quantity (pump_ledger (int i + 1) s'))"
    if i: "i < PUMP_COUNT" for i
    using b i
    by (simp add: buckets_ok_def ps pump_of_sale_numbered [OF n i] pump_ledger_snoc [OF l]
        total_snoc pump_credited_def)
  have 3: "1 \<le> tx_pump_id t \<and> tx_pump_id t \<le> int PUMP_COUNT" if "t \<in> set (ledger s')" for t
  proof (cases "t = tx")
    case True
    with sale_pump_in_range [OF n p] show ?thesis by simp
  next
    case False
    with that l have "t \<in> set (ledger s)" by simp
    with b show ?thesis by (simp add: buckets_ok_def)
  qed
  from 1 2 3 show ?thesis
    unfolding buckets_ok_def by blast
qed

lemma buckets_ok_process_sale:
  fixes s :: "'d::{zero,plus,minus,times,inverse,ord} state"
  assumes "buckets_ok s" "ledger_ok s" "heap_bounded (realloc_ok env)"
    and "process_sale inp env s = Inr (r, s')"
  shows "buckets_ok s'"
  using assms(2,3,4)
proof (cases rule: process_sale_Inr_cases)
  case refused
  with assms(1) show ?thesis by simp
next
  case (sold tx)
  from buckets_ok_sold [OF assms(1) sold(4,5,9,10,11)] show ?thesis .
qed

lemma buckets_ok_add_supply: "buckets_ok (add_supply in_f in_amt s) = buckets_ok s"
  by (simp add: add_supply_def buckets_ok_def fuel_ledger_def pump_ledger_def ledger_def
      split: option.split)

lemma buckets_ok_generate_daily_report: "buckets_ok (generate_daily_report s) = buckets_ok s"
  by (simp add: generate_daily_report_def buckets_ok_def fuel_ledger_def pump_ledger_def ledger_def)

lemma buckets_ok_change_pump_status:
  "buckets_ok s \<Longrightarrow> buckets_ok (change_pump_status in_pid in_s s)"
  by (auto simp add: change_pump_status_def buckets_ok_def fuel_ledger_def pump_ledger_def
      ledger_def Let_def split: option.split)

lemma menu_step_buckets:
  assumes "buckets_ok s" "ledger_ok s" "heaps_bounded [c]" "menu_step c s = Inr s'"
  shows "buckets_ok s'"
proof (cases c)
  case (Process_sale inp env)
  with assms(3) have hb: "heap_bounded (realloc_ok env)" by (simp add: heaps_bounded_def)
  from assms(4) Process_sale obtain r where "process_sale inp env s = Inr (r, s')"
    by (cases "process_sale inp env s") (auto simp add: menu_step_def)
  from buckets_ok_process_sale [OF assms(1,2) hb this] show ?thesis .
next
  case (Add_supply in_f in_amt)
  with assms(1,4) show ?thesis by (auto simp add: menu_step_def buckets_ok_add_supply)
next
  case (Change_pump_status in_pid in_s)
  with assms(1,4) show ?thesis by (auto simp add: menu_step_def buckets_ok_change_pump_status)
next
  case Generate_daily_report
  with assms(1,4) show ?thesis by (auto simp add: menu_step_def buckets_ok_generate_daily_report)
next
  case Print_only
  with assms(1,4) show ?thesis by (auto simp add: menu_step_def)
qed

lemma menu_loop_buckets:
  assumes "buckets_ok s" "ledger_ok s" "heaps_bounded cs" "menu_loop cs s = Inr s'"
  shows "buckets_ok s'"
  using assms
proof (induction cs arbitrary: s)
  case Nil
  then show ?case by simp
next
  case (Cons c cs)
  from Cons.prems(3) have h1: "heaps_bounded [c]" and h2: "heaps_bounded cs"
    by (simp_all add: heaps_bounded_def)
  from Cons.prems(4) obtain s1 where s1: "menu_step c s = Inr s1" and r: "menu_loop cs s1 = Inr s'"
    by (cases "menu_step c s") simp_all
  from menu_step_buckets [OF Cons.prems(1,2) h1 s1] have b: "buckets_ok s1" .
  from menu_step_ledger(2) [OF Cons.prems(2) h1 s1] have "ledger_ok s1" .
  from Cons.IH [OF b this h2 r] show ?case .
qed

lemma buckets_ok_initial_state:
  "buckets_ok (initial_state :: 'a::{zero,plus,numeral,inverse,power} state)"
  by (simp add: buckets_ok_def fuel_ledger_def pump_ledger_def ledger_def initial_state_def
      static_state_def init_pump_def total_Nil PUMP_COUNT_def)

text \<open>With an exact addition the order of a sum does not matter.\<close>

lemma total_sum_list:
  fixes xs :: "'a::comm_monoid_add list"
  shows "total xs = sum_list xs"
  by (induction xs rule: rev_induct) (simp_all add: total_Nil total_snoc add.commute)

lemma sum_by_fuel:
  fixes g :: "'t \<Rightarrow> 'a::comm_monoid_add"
  shows "sum_list (map g (filter (\<lambda>t. k t = FUEL_PETROL) xs)) +
     sum_list (map g (filter (\<lambda>t. k t = FUEL_DIESEL) xs)) +
     sum_list (map g (filter (\<lambda>t. k t = FUEL_CNG) xs)) = sum_list (map g xs)"
proof (induction xs)
  case Nil
  show ?case by simp
next
  case (Cons t xs)
  then show ?case
    by (cases "k t") (simp_all add: ac_simps)
qed

lemma sum_by_pump:
  fixes g :: "'t \<Rightarrow> 'a::comm_monoid_add"
  assumes "\<forall>t \<in> set xs. 1 \<le> k t \<and> k t \<le> (6::int)"
  shows "sum_list (map g (filter (\<lambda>t. k t = 1) xs)) +
     sum_list (map g (filter (\<lambda>t. k t = 2) xs)) +
     sum_list (map g (filter (\<lambda>t. k t = 3) xs)) +
     sum_list (map g (filter (\<lambda>t. k t = 4) xs)) +
     sum_list (map g (filter (\<lambda>t. k t = 5) xs)) +
     sum_list (map g (filter (\<lambda>t. k t = 6) xs)) = sum_list (map g xs)"
  using assms
proof (induction xs)
  case Nil
  show ?case by simp
next
  case (Cons t xs)
  from Cons.prems have "1 \<le> k t" "k t \<le> 6" by simp_all
  then have "k t = 1 \<or> k t = 2 \<or> k t = 3 \<or> k t = 4 \<or> k t = 5 \<or> k t = 6"
    by presburger
  moreover from Cons have "sum_list (map g (filter (\<lambda>t. k t = 1) xs)) +
     sum_list (map g (filter (\<lambda>t. k t = 2) xs)) +
     sum_list (map g (filter (\<lambda>t. k t = 3) xs)) +
     sum_list (map g (filter (\<lambda>t. k t = 4) xs)) +
     sum_list (map g (filter (\<lambda>t. k t = 5) xs)) +
     sum_list (map g (filter (\<lambda>t. k t = 6) xs)) = sum_list (map g xs)"
    by simp
  ultimately show ?case
    by (elim disjE) (simp_all add: ac_simps)
qed

lemma buckets_ok_sums:
  fixes s :: "'a::comm_monoid_add state"
  assumes "buckets_ok s"
  shows "fuel_wise_amount_sum s = ledger_amount_sum s"
    "pump_amount_sum s = ledger_amount_sum s"
    "fuel_wise_quantity_sum s = ledger_quantity_sum s"
proof -
  from assms have f: "fuel_wise_amount s f = sum_list (map amount (fuel_ledger f s))"
    "fuel_wise_quantity s f = sum_list (map quantity (fuel_ledger f s))" for f
    by (simp_all add: buckets_ok_def total_sum_list)
  show "fuel_wise_amount_sum s = ledger_amount_sum s"
    using sum_by_fuel [of amount tx_fuel_type "ledger s"]
    by (simp add: fuel_wise_amount_sum_def ledger_amount_sum_def total_sum_list f fuel_ledger_def
        add.assoc)
  show "fuel_wise_quantity_sum s = ledger_quantity_sum s"
    using sum_by_fuel [of quantity tx_fuel_type "ledger s"]
    by (simp add: fuel_wise_quantity_sum_def ledger_quantity_sum_def total_sum_list f
        fuel_ledger_def add.assoc)
  from assms have p: "total_amount (pumps s i) = sum_list (map amount (pump_ledger (int i + 1) s))"
    if "i < 6" for i
    using that by (simp add: buckets_ok_def total_sum_list PUMP_COUNT_def)
  from assms have r: "\<forall>t \<in> set (ledger s). 1 \<le> tx_pump_id t \<and> tx_pump_id t \<le> 6"
    by (simp add: buckets_ok_def PUMP_COUNT_def)
  have u: "[0..<PUMP_COUNT] = [0, 1, 2, 3, 4, 5]"
    by (simp add: PUMP_COUNT_def upt_rec eval_nat_numeral)
  show "pump_amount_sum s = ledger_amount_sum s"
    using sum_by_pump [OF r, of amount]
    by (simp add: pump_amount_sum_def ledger_amount_sum_def total_sum_list u p pump_ledger_def
        add.assoc)
qed

section \<open>A sale that is served\<close>

lemma record_transaction_room_capacity:
  fixes tx :: "'d::{zero,plus} Transaction"
  assumes "tx_count s < tx_capacity s" "record_transaction ok lt tx s = Inr s'"
  shows "tx_capacity s' = tx_capacity s"
  using assms(2)
  by (auto simp add: record_transaction_def ensure_tx_capacity_room [OF assms(1)]
      store_transaction_def update_hour_wise_def update_payment_mode_def update_fuel_wise_def
      update_pump_stats_def Let_def split: if_splits option.splits)

lemma pump_index_by_id_numbered:
  assumes n: "\<forall>i<PUMP_COUNT. pump_id (pumps s i) = int i + 1"
    and p: "1 \<le> pid" "pid \<le> int PUMP_COUNT"
  shows "pump_index_by_id s pid = pid - 1"
proof -
  let ?i = "nat (pid - 1)"
  from p have i: "?i < PUMP_COUNT" "int ?i = pid - 1" by simp_all
  with n have "pump_id (pumps s ?i) = pid" by simp
  moreover have "\<forall>j. 0 \<le> j \<and> j < ?i \<longrightarrow> pump_id (pumps s j) \<noteq> pid"
    using n i by auto
  ultimately have "pump_index_from 0 (pumps s) pid = int ?i"
    using i(1) by (simp only: pump_index_from_first) simp
  with i(2) show ?thesis by (simp add: pump_index_by_id_def)
qed

text \<open>
  A sale with every choice in range, on an active pump, for a value that is not
  \<open>\<le> 0\<close> and a quantity that is not above the stock, when the array has room: it is
  served, and the state after it is the state before it with the record appended, the
  quantity taken from the stock and the accumulators of the fuel and of the pump
  increased.
\<close>

lemma sale_served:
  fixes s :: "'d::{zero,plus,minus,times,inverse,ord} state"
  assumes ok: "ledger_ok s" "tx_count s < tx_capacity s"
    and n: "\<forall>i<PUMP_COUNT. pump_id (pumps s i) = int i + 1"
    and p: "1 \<le> pid" "pid \<le> int PUMP_COUNT" "status (pumps s (nat (pid - 1))) = PUMP_ACTIVE"
    and inp: "in_pump_id inp = Some pid" "in_vchoice inp = Some v" "in_mode inp = Some m"
      "in_value inp = Some x" "in_paychoice inp = Some c"
    and choices: "0 \<le> v" "v \<le> 2" "m = 0 \<or> m = 1" "0 \<le> c" "c \<le> 2"
    and x: "\<not> x \<le> 0"
    and q: "\<not> current_stock (fuels s (fuel_type (pumps s (nat (pid - 1))))) <
        (if m = 0 then x else x / price (fuels s (fuel_type (pumps s (nat (pid - 1))))))"
    and env: "hour_valid (tx_localtime env)" "heap_bounded (realloc_ok env)"
  shows "\<exists>tx s'. process_sale inp env s = Inr (Receipt tx, s') \<and>
     tx_pump_id tx = pid \<and> tx_fuel_type tx = fuel_type (pumps s (nat (pid - 1))) \<and>
     quantity tx = (if m = 0 then x else x / price (fuels s (tx_fuel_type tx))) \<and>
     amount tx = (if m = 0 then x * price (fuels s (tx_fuel_type tx)) else x) \<and>
     sale_effect tx s s'"
proof -
  have idx: "pump_index_by_id s pid = pid - 1"
    by (rule pump_index_by_id_numbered [OF n p(1,2)])
  let ?f = "fuel_type (pumps s (nat (pid - 1)))"
  let ?q = "if m = 0 then x else x / price (fuels s ?f)"
  let ?a = "if m = 0 then x * price (fuels s ?f) else x"
  have sf: "sale_fuel s pid = ?f" by (simp add: sale_fuel_def idx)
  have sq: "sale_quantity s pid m x = ?q" by (simp add: sale_quantity_def sf)
  have sa: "sale_amount s pid m x = ?a" by (simp add: sale_amount_def sf)
  have nr: "\<not> rejected inp s"
    using p choices x q by (auto simp add: rejected_def inp idx sf sq)
  from process_sale_accepted [OF nr, of env]
  have ps: "process_sale inp env s = commit_sale env pid ?f v ?q ?a c s"
    by (simp add: inp sf sq sa)
  let ?tx = "sale_record env pid ?f v ?q ?a c s"
  let ?d = "sale_deducted ?f ?q s"
  have okd: "ledger_ok ?d" using ok(1) by (simp add: ledger_ok_sale_deducted)
  have room: "tx_count ?d < tx_capacity ?d" using ok(2) by (simp add: sale_deducted_def)
  have e: "ensure_tx_capacity (realloc_ok env) ?d \<noteq> Inl CapacityExpansionFailed"
    by (simp add: ensure_tx_capacity_room [OF room])
  from record_transaction_result [OF okd env(2) e env(1), of ?tx]
  obtain s' where r: "record_transaction (realloc_ok env) (tx_localtime env) ?tx ?d = Inr s'"
    and c: "tx_count s' = tx_count ?d + 1"
    by blast
  have res: "process_sale inp env s = Inr (Receipt ?tx, s')"
    using r by (simp add: ps commit_sale_eq)
  have cap: "tx_capacity s' = tx_capacity s"
    using record_transaction_room_capacity [OF room r] by (simp add: sale_deducted_def)
  have cnt: "tx_count s' = tx_count s + 1"
    using c by (simp add: sale_deducted_def)
  have t: "tx_pump_id ?tx = pid" "tx_fuel_type ?tx = ?f" "quantity ?tx = ?q" "amount ?tx = ?a"
    by (simp_all add: sale_record_def)
  from ok(1) env(2) res show ?thesis
  proof (cases rule: process_sale_Inr_cases)
    case refused
    then show ?thesis by simp
  next
    case (sold tx)
    from sold(2) have tx: "tx = ?tx" by simp
    have pm: "\<forall>i<PUMP_COUNT. pumps s' i =
         (if tx_pump_id tx = int i + 1 then pump_credited tx (pumps s i) else pumps s i)"
    proof (intro allI impI)
      fix i assume i: "i < PUMP_COUNT"
      from pump_of_sale_numbered [OF n i, of tx]
      show "pumps s' i =
          (if tx_pump_id tx = int i + 1 then pump_credited tx (pumps s i) else pumps s i)"
        by (simp only: sold(9))
    qed
    have "sale_effect tx s s'"
      unfolding sale_effect_def
      by (intro conjI sold(3) cnt cap sold(4) sold(8) pm sold(10) sold(11))
    moreover from res tx have "process_sale inp env s = Inr (Receipt tx, s')" by simp
    moreover have "tx_pump_id tx = pid \<and> tx_fuel_type tx = ?f" by (simp only: tx t)
    moreover have "quantity tx = (if m = 0 then x else x / price (fuels s (tx_fuel_type tx)))"
      by (simp only: tx t)
    moreover have "amount tx = (if m = 0 then x * price (fuels s (tx_fuel_type tx)) else x)"
      by (simp only: tx t)
    ultimately show ?thesis by blast
  qed
qed

text \<open>The same for a sale on one of the two petrol pumps, in the form that chains.\<close>

lemma petrol_sale_next:
  fixes s :: "'d::{zero,plus,minus,times,inverse,ord} state"
  assumes ok: "ledger_ok s" "tx_count s < tx_capacity s" "pumps_installed s"
    and f: "price (fuels s FUEL_PETROL) = pr" "current_stock (fuels s FUEL_PETROL) = st"
    and p: "pid = 1 \<or> pid = 2"
    and inp: "inp = \<lparr>in_pump_id = Some pid, in_vchoice = Some 1, in_mode = Some m,
        in_value = Some x, in_paychoice = Some 0\<rparr>"
    and m: "m = 0 \<or> m = 1"
    and x: "\<not> x \<le> 0" "\<not> st < (if m = 0 then x else x / pr)"
  shows "\<exists>tx s'. menu_step (Process_sale inp at_five_pm) s = Inr s' \<and>
     tx_pump_id tx = pid \<and> tx_fuel_type tx = FUEL_PETROL \<and>
     quantity tx = (if m = 0 then x else x / pr) \<and>
     amount tx = (if m = 0 then x * pr else x) \<and>
     sale_effect tx s s' \<and> pumps_installed s' \<and>
     price (fuels s' FUEL_PETROL) = pr \<and>
     opening_stock (fuels s' FUEL_PETROL) = opening_stock (fuels s FUEL_PETROL) \<and>
     current_stock (fuels s' FUEL_PETROL) = st - (if m = 0 then x else x / pr)"
proof -
  from ok(3) have n: "\<forall>i<PUMP_COUNT. pump_id (pumps s i) = int i + 1"
    by (simp add: pumps_installed_def)
  from p have r: "1 \<le> pid" "pid \<le> int PUMP_COUNT" by (auto simp add: PUMP_COUNT_def)
  from p have i: "nat (pid - 1) < PUMP_COUNT" "nat (pid - 1) < 2"
    by (auto simp add: PUMP_COUNT_def)
  from ok(3) i have a: "status (pumps s (nat (pid - 1))) = PUMP_ACTIVE"
    and ft: "fuel_type (pumps s (nat (pid - 1))) = FUEL_PETROL"
    by (simp_all add: pumps_installed_def)
  have env: "hour_valid (tx_localtime at_five_pm)" "heap_bounded (realloc_ok at_five_pm)"
    by (simp_all add: at_five_pm_def hour_valid_five_pm heap_bounded_some_memory)
  have q: "\<not> current_stock (fuels s (fuel_type (pumps s (nat (pid - 1))))) <
        (if m = 0 then x else x / price (fuels s (fuel_type (pumps s (nat (pid - 1))))))"
    unfolding ft f by (rule x(2))
  from sale_served [OF ok(1,2) n r a _ _ _ _ _ _ _ m _ _ x(1) q env, of inp 1 0]
  obtain tx s' where ps: "process_sale inp at_five_pm s = Inr (Receipt tx, s')"
    and t: "tx_pump_id tx = pid" "tx_fuel_type tx = FUEL_PETROL"
      "quantity tx = (if m = 0 then x else x / pr)" "amount tx = (if m = 0 then x * pr else x)"
    and e: "sale_effect tx s s'"
    by (auto simp add: inp ft f)
  from e have pm: "\<forall>i<PUMP_COUNT. pumps s' i =
         (if tx_pump_id tx = int i + 1 then pump_credited tx (pumps s i) else pumps s i)"
    and fs: "fuels s' = (fuels s)(tx_fuel_type tx := (fuels s (tx_fuel_type tx))
         \<lparr>current_stock := current_stock (fuels s (tx_fuel_type tx)) - quantity tx\<rparr>)"
    by (simp_all add: sale_effect_def)
  have "pumps_installed s'"
    using ok(3) pm by (simp add: pumps_installed_def pump_credited_def)
  moreover have "menu_step (Process_sale inp at_five_pm) s = Inr s'"
    by (simp add: menu_step_def ps)
  moreover have "price (fuels s' FUEL_PETROL) = pr"
    "opening_stock (fuels s' FUEL_PETROL) = opening_stock (fuels s FUEL_PETROL)"
    "current_stock (fuels s' FUEL_PETROL) = st - (if m = 0 then x else x / pr)"
    by (simp_all add: fs t f)
  ultimately show ?thesis
    using t e by blast
qed

section \<open>The stock of a fuel\<close>











lemma main_buckets:
  fixes cs :: "'d::linordered_field command list"
  assumes "main calloc_ok cs = Inr s" "heaps_bounded cs"
  shows "buckets_ok s"
proof -
  have c: "calloc_ok"
    using assms(1) by (cases calloc_ok) (simp_all add: main_def initialize_system_no_memory)
  with assms(1) have r: "menu_loop cs initial_state = Inr s"
    by (simp add: main_def initialize_system_eq)
  from menu_loop_buckets [OF buckets_ok_initial_state ledger_ok_initial_state assms(2) r]
  show ?thesis .
qed

section \<open>Binary64 arithmetic on the values of three sales\<close>

lemma binary64_petrol_literals:
  "binary64_of_rat (205 / 2) = Finite (205 / 2)"
  "binary64_of_rat (50000) = Finite 50000"
proof -
  show "binary64_of_rat (205 / 2) = Finite (205 / 2)"
    by (simp add: binary64_of_rat_def, subst round_binary64_at [where a = 6 and b = 0 and k = 46 and n = 7212796278210560], simp_all)
  show "binary64_of_rat (50000) = Finite 50000"
    by (simp add: binary64_of_rat_def, subst round_binary64_at [where a = 15 and b = 0 and k = 37 and n = 6871947673600000], simp_all)
qed

lemma binary64_three_amounts:
  "binary64_of_rat (67269 / 100) = Finite (1479260953777275 / 2199023255552)"
  "binary64_of_rat (105933 / 25) = Finite (582372826325975 / 137438953472)"
  "binary64_of_rat (381911 / 100) = Finite (8398311705511199 / 2199023255552)"
proof -
  show "binary64_of_rat (67269 / 100) = Finite (1479260953777275 / 2199023255552)"
    by (simp add: binary64_of_rat_def, subst round_binary64_at [where a = 9 and b = 0 and k = 43 and n = 5917043815109100], simp_all)
  show "binary64_of_rat (105933 / 25) = Finite (582372826325975 / 137438953472)"
    by (simp add: binary64_of_rat_def, subst round_binary64_at [where a = 12 and b = 0 and k = 40 and n = 4658982610607800], simp_all)
  show "binary64_of_rat (381911 / 100) = Finite (8398311705511199 / 2199023255552)"
    by (simp add: binary64_of_rat_def, subst round_binary64_at [where a = 11 and b = 0 and k = 41 and n = 8398311705511199], simp_all)
qed

lemma binary64_three_quantities:
  "Finite (1479260953777275 / 2199023255552) / Finite (205 / 2) = Finite (7389088861794779 / 1125899906842624)"
  "Finite (582372826325975 / 137438953472) / Finite (205 / 2) = Finite (5818046577149253 / 140737488355328)"
  "Finite (8398311705511199 / 2199023255552) / Finite (205 / 2) = Finite (2621911947086423 / 70368744177664)"
proof -
  show "Finite (1479260953777275 / 2199023255552) / Finite (205 / 2) = Finite (7389088861794779 / 1125899906842624)"
    by (simp add: divide_binary64_def zero_binary64_def, subst round_binary64_at [where a = 2 and b = 0 and k = 50 and n = 7389088861794779], simp_all)
  show "Finite (582372826325975 / 137438953472) / Finite (205 / 2) = Finite (5818046577149253 / 140737488355328)"
    by (simp add: divide_binary64_def zero_binary64_def, subst round_binary64_at [where a = 5 and b = 0 and k = 47 and n = 5818046577149253], simp_all)
  show "Finite (8398311705511199 / 2199023255552) / Finite (205 / 2) = Finite (2621911947086423 / 70368744177664)"
    by (simp add: divide_binary64_def zero_binary64_def, subst round_binary64_at [where a = 5 and b = 0 and k = 47 and n = 5243823894172846], simp_all)
qed

lemma binary64_stock_after_amounts:
  "Finite 50000 - Finite (7389088861794779 / 1125899906842624) = Finite (3435522842606775 / 68719476736)"
  "Finite (3435522842606775 / 68719476736) - Finite (5818046577149253 / 140737488355328) = Finite (6865363999103053 / 137438953472)"
proof -
  show "Finite 50000 - Finite (7389088861794779 / 1125899906842624) = Finite (3435522842606775 / 68719476736)"
    by (simp add: minus_binary64_def zero_binary64_def, subst round_binary64_at [where a = 15 and b = 0 and k = 37 and n = 6871045685213550], simp_all)
  show "Finite (3435522842606775 / 68719476736) - Finite (5818046577149253 / 140737488355328) = Finite (6865363999103053 / 137438953472)"
    by (simp add: minus_binary64_def zero_binary64_def, subst round_binary64_at [where a = 15 and b = 0 and k = 37 and n = 6865363999103053], simp_all)
qed

lemma binary64_amounts_in_ledger_order:
  "0 + Finite (1479260953777275 / 2199023255552) = Finite (1479260953777275 / 2199023255552)"
  "Finite (1479260953777275 / 2199023255552) + Finite (582372826325975 / 137438953472) = Finite (2699306543748219 / 549755813888)"
  "Finite (2699306543748219 / 549755813888) + Finite (8398311705511199 / 2199023255552) = Finite (4798884470126019 / 549755813888)"
proof -
  show "0 + Finite (1479260953777275 / 2199023255552) = Finite (1479260953777275 / 2199023255552)"
    by (simp add: plus_binary64_def zero_binary64_def, subst round_binary64_at [where a = 9 and b = 0 and k = 43 and n = 5917043815109100], simp_all)
  show "Finite (1479260953777275 / 2199023255552) + Finite (582372826325975 / 137438953472) = Finite (2699306543748219 / 549755813888)"
    by (simp add: plus_binary64_def zero_binary64_def, subst round_binary64_at [where a = 12 and b = 0 and k = 40 and n = 5398613087496438], simp_all)
  show "Finite (2699306543748219 / 549755813888) + Finite (8398311705511199 / 2199023255552) = Finite (4798884470126019 / 549755813888)"
    by (simp add: plus_binary64_def zero_binary64_def, subst round_binary64_at [where a = 13 and b = 0 and k = 39 and n = 4798884470126019], simp_all)
qed

lemma binary64_amounts_in_pump_order:
  "Finite (1479260953777275 / 2199023255552) + Finite (8398311705511199 / 2199023255552) = Finite (4938786329644237 / 1099511627776)"
  "0 + Finite (582372826325975 / 137438953472) = Finite (582372826325975 / 137438953472)"
  "0 + Finite (4938786329644237 / 1099511627776) = Finite (4938786329644237 / 1099511627776)"
  "Finite (4938786329644237 / 1099511627776) + Finite (582372826325975 / 137438953472) = Finite (2399442235063009 / 274877906944)"
proof -
  show "Finite (1479260953777275 / 2199023255552) + Finite (8398311705511199 / 2199023255552) = Finite (4938786329644237 / 1099511627776)"
    by (simp add: plus_binary64_def zero_binary64_def, subst round_binary64_at [where a = 12 and b = 0 and k = 40 and n = 4938786329644237], simp_all)
  show "0 + Finite (582372826325975 / 137438953472) = Finite (582372826325975 / 137438953472)"
    by (simp add: plus_binary64_def zero_binary64_def, subst round_binary64_at [where a = 12 and b = 0 and k = 40 and n = 4658982610607800], simp_all)
  show "0 + Finite (4938786329644237 / 1099511627776) = Finite (4938786329644237 / 1099511627776)"
    by (simp add: plus_binary64_def zero_binary64_def, subst round_binary64_at [where a = 12 and b = 0 and k = 40 and n = 4938786329644237], simp_all)
  show "Finite (4938786329644237 / 1099511627776) + Finite (582372826325975 / 137438953472) = Finite (2399442235063009 / 274877906944)"
    by (simp add: plus_binary64_def zero_binary64_def, subst round_binary64_at [where a = 13 and b = 0 and k = 39 and n = 4798884470126018], simp_all)
qed

lemma binary64_sums_plus_zero:
  "0 + Finite (4798884470126019 / 549755813888) = Finite (4798884470126019 / 549755813888)"
  "Finite (4798884470126019 / 549755813888) + 0 = Finite (4798884470126019 / 549755813888)"
  "Finite (2399442235063009 / 274877906944) + 0 = Finite (2399442235063009 / 274877906944)"
proof -
  show "0 + Finite (4798884470126019 / 549755813888) = Finite (4798884470126019 / 549755813888)"
    by (simp add: plus_binary64_def zero_binary64_def, subst round_binary64_at [where a = 13 and b = 0 and k = 39 and n = 4798884470126019], simp_all)
  show "Finite (4798884470126019 / 549755813888) + 0 = Finite (4798884470126019 / 549755813888)"
    by (simp add: plus_binary64_def zero_binary64_def, subst round_binary64_at [where a = 13 and b = 0 and k = 39 and n = 4798884470126019], simp_all)
  show "Finite (2399442235063009 / 274877906944) + 0 = Finite (2399442235063009 / 274877906944)"
    by (simp add: plus_binary64_def zero_binary64_def, subst round_binary64_at [where a = 13 and b = 0 and k = 39 and n = 4798884470126018], simp_all)
qed

section \<open>Binary64 arithmetic on the values of two sales\<close>




section \<open>The literals of the source in binary64\<close>



section \<open>Three sales in binary64\<close>

lemma initial_binary64_facts:
  "ledger_ok initial_binary64" "tx_count initial_binary64 = 0" "tx_capacity initial_binary64 = 50"
  "pumps_installed initial_binary64"
  "price (fuels initial_binary64 FUEL_PETROL) = Finite (205 / 2)"
  "current_stock (fuels initial_binary64 FUEL_PETROL) = Finite 50000"
  "opening_stock (fuels initial_binary64 FUEL_PETROL) = Finite 50000"
  "ledger initial_binary64 = []"
  "fuel_wise_amount initial_binary64 = (\<lambda>f. 0)"
  "fuel_wise_quantity initial_binary64 = (\<lambda>f. 0)"
  "total_amount (pumps initial_binary64 i) = 0"
  by (simp_all add: initial_binary64_def static_state_def ledger_ok_def sizeof_Transaction_def
      pumps_installed_def init_pump_def PUMP_COUNT_def ledger_def binary64_petrol_literals)

lemma amount_sale_fields:
  "amount_sale pid x = \<lparr>in_pump_id = Some pid, in_vchoice = Some 1, in_mode = Some 1,
        in_value = Some x, in_paychoice = Some 0\<rparr>"
  by (simp add: amount_sale_def)


lemma three_amounts_run:
  "\<exists>s. menu_loop three_amounts initial_binary64 = Inr s \<and> tx_count s = 3 \<and>
     map amount (ledger s) = [Finite (1479260953777275 / 2199023255552),
       Finite (582372826325975 / 137438953472),
       Finite (8398311705511199 / 2199023255552)] \<and>
     fuel_wise_amount s FUEL_PETROL = Finite (4798884470126019 / 549755813888) \<and>
     fuel_wise_amount s FUEL_DIESEL = 0 \<and> fuel_wise_amount s FUEL_CNG = 0 \<and>
     total_amount (pumps s 0) = Finite (4938786329644237 / 1099511627776) \<and>
     total_amount (pumps s 1) = Finite (582372826325975 / 137438953472) \<and>
     total_amount (pumps s 2) = 0 \<and> total_amount (pumps s 3) = 0 \<and>
     total_amount (pumps s 4) = 0 \<and> total_amount (pumps s 5) = 0"
proof -
  let ?s0 = initial_binary64
  note k0 = initial_binary64_facts
  have m: "(1::int) = 0 \<or> (1::int) = 1" by simp
  have p1: "(1::int) = 1 \<or> (1::int) = 2" and p2: "(2::int) = 1 \<or> (2::int) = 2" by simp_all
  have room0: "tx_count ?s0 < tx_capacity ?s0" by (simp add: k0)
  have x1: "\<not> Finite (1479260953777275 / 2199023255552) \<le> 0"
    "\<not> Finite 50000 < (if (1::int) = 0 then Finite (1479260953777275 / 2199023255552)
        else Finite (1479260953777275 / 2199023255552) / Finite (205 / 2))"
    by (simp_all add: binary64_three_quantities less_eq_binary64_def less_binary64_def
        zero_binary64_def)
  from petrol_sale_next [OF k0(1) room0 k0(4) k0(5) k0(6) p1 amount_sale_fields m x1]
  have "\<exists>tx s'. menu_step (Process_sale (amount_sale 1 (Finite (1479260953777275 / 2199023255552)))
         at_five_pm) ?s0 = Inr s' \<and>
     tx_pump_id tx = 1 \<and> tx_fuel_type tx = FUEL_PETROL \<and>
     amount tx = Finite (1479260953777275 / 2199023255552) \<and>
     sale_effect tx ?s0 s' \<and> pumps_installed s' \<and>
     price (fuels s' FUEL_PETROL) = Finite (205 / 2) \<and>
     current_stock (fuels s' FUEL_PETROL) = Finite (3435522842606775 / 68719476736)"
    by (simp add: binary64_three_quantities binary64_stock_after_amounts) blast
  then obtain tx1 s1 where r1: "menu_step (Process_sale
        (amount_sale 1 (Finite (1479260953777275 / 2199023255552))) at_five_pm) ?s0 = Inr s1"
    and t1: "tx_pump_id tx1 = 1" "tx_fuel_type tx1 = FUEL_PETROL"
      "amount tx1 = Finite (1479260953777275 / 2199023255552)"
    and e1: "sale_effect tx1 ?s0 s1" and i1: "pumps_installed s1"
    and f1: "price (fuels s1 FUEL_PETROL) = Finite (205 / 2)"
      "current_stock (fuels s1 FUEL_PETROL) = Finite (3435522842606775 / 68719476736)"
    by blast
  from e1 have k1: "ledger_ok s1" "tx_count s1 = 1" "tx_capacity s1 = 50" "ledger s1 = [tx1]"
    by (simp_all add: sale_effect_def k0)
  from e1 have a1: "fuel_wise_amount s1 = (\<lambda>f. 0)(FUEL_PETROL := Finite (1479260953777275 / 2199023255552))"
    by (simp add: sale_effect_def k0 t1 binary64_amounts_in_ledger_order)
  from e1 have pm1: "\<forall>i<PUMP_COUNT. pumps s1 i =
         (if tx_pump_id tx1 = int i + 1 then pump_credited tx1 (pumps ?s0 i) else pumps ?s0 i)"
    by (simp add: sale_effect_def)
  have b1: "total_amount (pumps s1 0) = Finite (1479260953777275 / 2199023255552)"
    "total_amount (pumps s1 1) = 0" "total_amount (pumps s1 2) = 0" "total_amount (pumps s1 3) = 0"
    "total_amount (pumps s1 4) = 0" "total_amount (pumps s1 5) = 0"
    using pm1 by (simp_all add: PUMP_COUNT_def pump_credited_def t1 k0
        binary64_amounts_in_ledger_order)
  have room1: "tx_count s1 < tx_capacity s1" by (simp add: k1)
  have x2: "\<not> Finite (582372826325975 / 137438953472) \<le> 0"
    "\<not> Finite (3435522842606775 / 68719476736) < (if (1::int) = 0 then Finite (582372826325975 / 137438953472)
        else Finite (582372826325975 / 137438953472) / Finite (205 / 2))"
    by (simp_all add: binary64_three_quantities less_eq_binary64_def less_binary64_def
        zero_binary64_def)
  from petrol_sale_next [OF k1(1) room1 i1 f1 p2 amount_sale_fields m x2]
  have "\<exists>tx s'. menu_step (Process_sale (amount_sale 2 (Finite (582372826325975 / 137438953472)))
         at_five_pm) s1 = Inr s' \<and>
     tx_pump_id tx = 2 \<and> tx_fuel_type tx = FUEL_PETROL \<and>
     amount tx = Finite (582372826325975 / 137438953472) \<and>
     sale_effect tx s1 s' \<and> pumps_installed s' \<and>
     price (fuels s' FUEL_PETROL) = Finite (205 / 2) \<and>
     current_stock (fuels s' FUEL_PETROL) = Finite (6865363999103053 / 137438953472)"
    by (simp add: binary64_three_quantities binary64_stock_after_amounts) blast
  then obtain tx2 s2 where r2: "menu_step (Process_sale
        (amount_sale 2 (Finite (582372826325975 / 137438953472))) at_five_pm) s1 = Inr s2"
    and t2: "tx_pump_id tx2 = 2" "tx_fuel_type tx2 = FUEL_PETROL"
      "amount tx2 = Finite (582372826325975 / 137438953472)"
    and e2: "sale_effect tx2 s1 s2" and i2: "pumps_installed s2"
    and f2: "price (fuels s2 FUEL_PETROL) = Finite (205 / 2)"
      "current_stock (fuels s2 FUEL_PETROL) = Finite (6865363999103053 / 137438953472)"
    by blast
  from e2 have k2: "ledger_ok s2" "tx_count s2 = 2" "tx_capacity s2 = 50"
      "ledger s2 = [tx1, tx2]"
    by (simp_all add: sale_effect_def k1)
  from e2 have a2: "fuel_wise_amount s2 = (\<lambda>f. 0)(FUEL_PETROL := Finite (2699306543748219 / 549755813888))"
    by (simp add: sale_effect_def a1 t2 binary64_amounts_in_ledger_order)
  from e2 have pm2: "\<forall>i<PUMP_COUNT. pumps s2 i =
         (if tx_pump_id tx2 = int i + 1 then pump_credited tx2 (pumps s1 i) else pumps s1 i)"
    by (simp add: sale_effect_def)
  have b2: "total_amount (pumps s2 0) = Finite (1479260953777275 / 2199023255552)"
    "total_amount (pumps s2 1) = Finite (582372826325975 / 137438953472)"
    "total_amount (pumps s2 2) = 0" "total_amount (pumps s2 3) = 0"
    "total_amount (pumps s2 4) = 0" "total_amount (pumps s2 5) = 0"
    using pm2 by (simp_all add: PUMP_COUNT_def pump_credited_def t2 b1 b1 [unfolded One_nat_def]
        binary64_amounts_in_pump_order)
  have room2: "tx_count s2 < tx_capacity s2" by (simp add: k2)
  have x3: "\<not> Finite (8398311705511199 / 2199023255552) \<le> 0"
    "\<not> Finite (6865363999103053 / 137438953472) < (if (1::int) = 0 then Finite (8398311705511199 / 2199023255552)
        else Finite (8398311705511199 / 2199023255552) / Finite (205 / 2))"
    by (simp_all add: binary64_three_quantities less_eq_binary64_def less_binary64_def
        zero_binary64_def)
  from petrol_sale_next [OF k2(1) room2 i2 f2 p1 amount_sale_fields m x3]
  have "\<exists>tx s'. menu_step (Process_sale (amount_sale 1 (Finite (8398311705511199 / 2199023255552)))
         at_five_pm) s2 = Inr s' \<and>
     tx_pump_id tx = 1 \<and> tx_fuel_type tx = FUEL_PETROL \<and>
     amount tx = Finite (8398311705511199 / 2199023255552) \<and>
     sale_effect tx s2 s'"
    by (simp add: binary64_three_quantities) blast
  then obtain tx3 s3 where r3: "menu_step (Process_sale
        (amount_sale 1 (Finite (8398311705511199 / 2199023255552))) at_five_pm) s2 = Inr s3"
    and t3: "tx_pump_id tx3 = 1" "tx_fuel_type tx3 = FUEL_PETROL"
      "amount tx3 = Finite (8398311705511199 / 2199023255552)"
    and e3: "sale_effect tx3 s2 s3"
    by blast
  from e3 have k3: "tx_count s3 = 3" "ledger s3 = [tx1, tx2, tx3]"
    by (simp_all add: sale_effect_def k2)
  from e3 have a3: "fuel_wise_amount s3 = (\<lambda>f. 0)(FUEL_PETROL := Finite (4798884470126019 / 549755813888))"
    by (simp add: sale_effect_def a2 t3 binary64_amounts_in_ledger_order)
  from e3 have pm3: "\<forall>i<PUMP_COUNT. pumps s3 i =
         (if tx_pump_id tx3 = int i + 1 then pump_credited tx3 (pumps s2 i) else pumps s2 i)"
    by (simp add: sale_effect_def)
  have b3: "total_amount (pumps s3 0) = Finite (4938786329644237 / 1099511627776)"
    "total_amount (pumps s3 1) = Finite (582372826325975 / 137438953472)"
    "total_amount (pumps s3 2) = 0" "total_amount (pumps s3 3) = 0"
    "total_amount (pumps s3 4) = 0" "total_amount (pumps s3 5) = 0"
    using pm3 by (simp_all add: PUMP_COUNT_def pump_credited_def t3 b2 b2 [unfolded One_nat_def]
        binary64_amounts_in_pump_order)
  have "menu_loop three_amounts ?s0 = Inr s3"
    by (simp add: three_amounts_def binary64_three_amounts r1 r2 r3)
  with k3 a3 b3 t1 t2 t3 show ?thesis by simp
qed

section \<open>The stock in binary64\<close>









section \<open>Two sales in binary64\<close>



lemma three_amounts_served:
  "\<exists>s. menu_loop three_amounts initial_binary64 = Inr s \<and> tx_count s = 3"
  using three_amounts_run by (elim exE conjE) (rule exI, rule conjI, assumption+)


lemma heaps_bounded_binary64_runs:
  "heaps_bounded three_amounts" "heaps_bounded two_quantities" "heaps_bounded nan_quantity"
  by (simp_all add: heaps_bounded_def three_amounts_def two_quantities_def nan_quantity_def
      at_five_pm_def heap_bounded_some_memory)

lemma buckets_ok_initial_binary64: "buckets_ok initial_binary64"
  by (simp add: buckets_ok_def fuel_ledger_def pump_ledger_def ledger_def initial_binary64_def
      static_state_def init_pump_def total_Nil PUMP_COUNT_def)



section \<open>The aggregation sums\<close>

text \<open>
  C1, as amended. Whatever the arithmetic of \<^verbatim>\<open>double\<close>, the menu loop keeps the
  accumulators in step with the ledger (\<open>buckets_ok\<close>): each fuel-wise accumulator is
  the sum, taken in the order of the ledger, of its field over the records of that
  fuel, and each pump carries the sum of the records made at it; this holds of the
  initial state in binary64. With an exact arithmetic (\<^verbatim>\<open>double\<close> read as an
  ordered field, the real numbers for one), in every state that \<^verbatim>\<open>main\<close> reaches,
  whatever the commands served, the fuel-wise amounts summed over the three fuels,
  \<open>total_amount\<close> summed over the six pumps and the amounts of the ledger records
  have the same sum, and the fuel-wise quantities have the sum of the quantities of
  the ledger. The allocator is assumed never to return a block of \<open>2 ^ 63\<close> bytes or
  more.
\<close>

theorem accumulators_follow_ledger:
  fixes cs :: "'d::linordered_field command list"
    and t :: "'e::{zero,plus,minus,times,inverse,ord} state"
  shows "(main calloc_ok cs = Inr s \<and> heaps_bounded cs \<longrightarrow>
            buckets_ok s \<and>
            fuel_wise_amount_sum s = ledger_amount_sum s \<and>
            pump_amount_sum s = ledger_amount_sum s \<and>
            fuel_wise_quantity_sum s = ledger_quantity_sum s) \<and>
         (buckets_ok t \<and> ledger_ok t \<and> heaps_bounded ds \<and> menu_loop ds t = Inr t' \<longrightarrow>
            buckets_ok t') \<and>
         buckets_ok initial_binary64"
proof (intro conjI impI)
  assume a: "main calloc_ok cs = Inr s \<and> heaps_bounded cs"
  then have b: "buckets_ok s" by (auto intro: main_buckets)
  then show "buckets_ok s" .
  from b show "fuel_wise_amount_sum s = ledger_amount_sum s" by (rule buckets_ok_sums)
  from b show "pump_amount_sum s = ledger_amount_sum s" by (rule buckets_ok_sums)
  from b show "fuel_wise_quantity_sum s = ledger_quantity_sum s" by (rule buckets_ok_sums)
next
  assume "buckets_ok t \<and> ledger_ok t \<and> heaps_bounded ds \<and> menu_loop ds t = Inr t'"
  then have "buckets_ok t" "ledger_ok t" "heaps_bounded ds" "menu_loop ds t = Inr t'"
    by simp_all
  then show "buckets_ok t'" by (rule menu_loop_buckets)
next
  show "buckets_ok initial_binary64" by (rule buckets_ok_initial_binary64)
qed

theorem accumulators_follow_ledger_witness:
  "(\<exists>s. main True two_attempts = Inr s \<and> tx_count s = 1 \<and>
        fuel_wise_amount_sum s = ledger_amount_sum s \<and>
        pump_amount_sum s = ledger_amount_sum s \<and>
        fuel_wise_quantity_sum s = ledger_quantity_sum s) \<and>
   (\<exists>t. menu_loop three_amounts initial_binary64 = Inr t \<and> tx_count t = 3 \<and> buckets_ok t)"
proof -
  from main_two_attempts obtain s where s: "main True two_attempts = Inr s" "tx_count s = 1"
    by blast
  from three_amounts_served obtain t
    where t: "menu_loop three_amounts initial_binary64 = Inr t" "tx_count t = 3"
    by blast
  note a = accumulators_follow_ledger [where calloc_ok = True and cs = two_attempts and s = s
      and t = initial_binary64 and ds = three_amounts and t' = t]
  from a s(1) heaps_bounded_two_attempts
  have 1: "fuel_wise_amount_sum s = ledger_amount_sum s \<and>
        pump_amount_sum s = ledger_amount_sum s \<and>
        fuel_wise_quantity_sum s = ledger_quantity_sum s"
    by simp
  from a t(1) initial_binary64_facts(1) heaps_bounded_binary64_runs(1)
  have 2: "buckets_ok t" by simp
  from 1 2 s t show ?thesis by blast
qed

text \<open>
  C1, as stated, fails in binary64. Three sales from the initial state, for the amounts
  672.69, 4237.32 and 3819.11 on the pumps 1, 2 and 1, are all served; the fuel-wise
  amounts and the amounts of the ledger then sum to 8729.12, and \<open>total_amount\<close> over
  the pumps to 8729.119999999999, the double just below.
\<close>

theorem ledger_sums_binary64_counterexample:
  "\<not> isl (menu_loop three_amounts initial_binary64) \<and>
   tx_count (projr (menu_loop three_amounts initial_binary64)) = 3 \<and>
   fuel_wise_amount_sum (projr (menu_loop three_amounts initial_binary64)) =
     Finite (4798884470126019 / 549755813888) \<and>
   ledger_amount_sum (projr (menu_loop three_amounts initial_binary64)) =
     Finite (4798884470126019 / 549755813888) \<and>
   pump_amount_sum (projr (menu_loop three_amounts initial_binary64)) =
     Finite (2399442235063009 / 274877906944) \<and>
   pump_amount_sum (projr (menu_loop three_amounts initial_binary64)) \<noteq>
     ledger_amount_sum (projr (menu_loop three_amounts initial_binary64))"
proof -
  from three_amounts_run obtain s
    where h: "menu_loop three_amounts initial_binary64 = Inr s \<and> tx_count s = 3 \<and>
     map amount (ledger s) = [Finite (1479260953777275 / 2199023255552),
       Finite (582372826325975 / 137438953472),
       Finite (8398311705511199 / 2199023255552)] \<and>
     fuel_wise_amount s FUEL_PETROL = Finite (4798884470126019 / 549755813888) \<and>
     fuel_wise_amount s FUEL_DIESEL = 0 \<and> fuel_wise_amount s FUEL_CNG = 0 \<and>
     total_amount (pumps s 0) = Finite (4938786329644237 / 1099511627776) \<and>
     total_amount (pumps s 1) = Finite (582372826325975 / 137438953472) \<and>
     total_amount (pumps s 2) = 0 \<and> total_amount (pumps s 3) = 0 \<and>
     total_amount (pumps s 4) = 0 \<and> total_amount (pumps s 5) = 0"
    by (rule exE)
  from h have r: "menu_loop three_amounts initial_binary64 = Inr s" and c: "tx_count s = 3"
      and l: "map amount (ledger s) = [Finite (1479260953777275 / 2199023255552),
          Finite (582372826325975 / 137438953472), Finite (8398311705511199 / 2199023255552)]"
      and f: "fuel_wise_amount s FUEL_PETROL = Finite (4798884470126019 / 549755813888)"
        "fuel_wise_amount s FUEL_DIESEL = 0" "fuel_wise_amount s FUEL_CNG = 0"
      and p: "total_amount (pumps s 0) = Finite (4938786329644237 / 1099511627776)"
        "total_amount (pumps s 1) = Finite (582372826325975 / 137438953472)"
        "total_amount (pumps s 2) = 0" "total_amount (pumps s 3) = 0"
        "total_amount (pumps s 4) = 0" "total_amount (pumps s 5) = 0"
    by blast+
  have u: "[0..<PUMP_COUNT] = [0, 1, 2, 3, 4, 5]"
    by (simp add: PUMP_COUNT_def upt_rec eval_nat_numeral)
  have z: "(0::binary64) + 0 = 0"
    by (simp add: zero_binary64_def plus_binary64_def round_binary64_def)
  have 1: "fuel_wise_amount_sum s = Finite (4798884470126019 / 549755813888)"
    by (simp add: fuel_wise_amount_sum_def total_def f binary64_sums_plus_zero)
  have 2: "ledger_amount_sum s = Finite (4798884470126019 / 549755813888)"
    by (simp add: ledger_amount_sum_def total_def l binary64_amounts_in_ledger_order)
  have 3: "pump_amount_sum s = Finite (2399442235063009 / 274877906944)"
    by (simp add: pump_amount_sum_def total_def u p p [unfolded One_nat_def]
        binary64_amounts_in_pump_order binary64_sums_plus_zero)
  from r c 1 2 3 show ?thesis by simp
qed

section \<open>Stock accounting\<close>




end
